theory Spec2Isabelle
  imports Main
begin

section \<open>Byte strings\<close>

text \<open>
  A Go \<^verbatim>\<open>string\<close> and a Go \<^verbatim>\<open>[]byte\<close> are sequences of bytes; both are modelled
  as \<^typ>\<open>string\<close>, whose characters are bytes.  The two bytes that cannot be typed inside
  a literal get a name.
\<close>

abbreviation dquote :: char where "dquote \<equiv> CHR 0x22"
abbreviation bslash :: char where "bslash \<equiv> CHR 0x5C"

definition byte :: "char \<Rightarrow> nat" where
  "byte c = of_char c"

definition between :: "nat \<Rightarrow> nat \<Rightarrow> char \<Rightarrow> bool" where
  "between lo hi c \<longleftrightarrow> lo \<le> byte c \<and> byte c \<le> hi"

subsection \<open>UTF-8, as package \<^verbatim>\<open>unicode/utf8\<close> decodes it\<close>

text \<open>
  \<open>rune_ok\<close> holds of the byte sequences that encode one rune: the well-formed
  sequences of one to four bytes, which exclude overlong forms, surrogates and values
  above U+10FFFF by the range of the second byte.
\<close>

definition cont :: "char \<Rightarrow> bool" where
  "cont c = between 0x80 0xBF c"

fun rune_ok :: "string \<Rightarrow> bool" where
  "rune_ok [a] \<longleftrightarrow> byte a < 0x80"
| "rune_ok [a, b] \<longleftrightarrow> between 0xC2 0xDF a \<and> cont b"
| "rune_ok [a, b, c] \<longleftrightarrow>
     between 0xE0 0xEF a
     \<and> between (if byte a = 0xE0 then 0xA0 else 0x80) (if byte a = 0xED then 0x9F else 0xBF) b
     \<and> cont c"
| "rune_ok [a, b, c, d] \<longleftrightarrow>
     between 0xF0 0xF4 a
     \<and> between (if byte a = 0xF0 then 0x90 else 0x80) (if byte a = 0xF4 then 0x8F else 0xBF) b
     \<and> cont c \<and> cont d"
| "rune_ok _ \<longleftrightarrow> False"

text \<open>
  \<^verbatim>\<open>utf8.DecodeRune\<close> returns the rune at the front of its input and the number of
  bytes of its encoding, or \<^verbatim>\<open>(RuneError, 1)\<close> when the input does not start with a
  well-formed encoding.  \<open>rune_len\<close> is that width, with \<open>0\<close> standing for the
  \<^verbatim>\<open>(RuneError, 1)\<close> answer.
\<close>

definition rune_at :: "nat \<Rightarrow> string \<Rightarrow> bool" where
  "rune_at k s \<longleftrightarrow> k \<le> length s \<and> rune_ok (take k s)"

definition rune_len :: "string \<Rightarrow> nat" where
  "rune_len s =
     (if rune_at 1 s then 1
      else if rune_at 2 s then 2
      else if rune_at 3 s then 3
      else if rune_at 4 s then 4
      else 0)"

text \<open>\<^verbatim>\<open>utf8.ValidString\<close>: every rune of the string is well formed.\<close>

fun ValidString :: "string \<Rightarrow> bool" where
  "ValidString [] = True"
| "ValidString (b # bs) =
     (let n = rune_len (b # bs) in n \<noteq> 0 \<and> ValidString (drop (n - 1) bs))"

text \<open>The encoding of U+FFFD, the replacement character \<^verbatim>\<open>utf8.RuneError\<close>.\<close>

definition RuneError :: string where
  "RuneError = [CHR 0xEF, CHR 0xBF, CHR 0xBD]"

text \<open>
  \<^verbatim>\<open>utf8.EncodeRune\<close> on a code point given as a number (surrogates and values
  above U+10FFFF are written as U+FFFD).
\<close>

definition EncodeRune :: "nat \<Rightarrow> string" where
  "EncodeRune r =
     (if r < 0x80 then [char_of r]
      else if r < 0x800 then [char_of (0xC0 + r div 64), char_of (0x80 + r mod 64)]
      else if (0xD800 \<le> r \<and> r < 0xE000) \<or> 0x10FFFF < r then RuneError
      else if r < 0x10000 then
        [char_of (0xE0 + r div 4096), char_of (0x80 + (r div 64) mod 64),
         char_of (0x80 + r mod 64)]
      else
        [char_of (0xF0 + r div 262144), char_of (0x80 + (r div 4096) mod 64),
         char_of (0x80 + (r div 64) mod 64), char_of (0x80 + r mod 64)])"

section \<open>The JSON encoding of strings (package \<^verbatim>\<open>encoding/json\<close>)\<close>

text \<open>
  \<^verbatim>\<open>json.Marshal\<close> writes a string between double quotes.  Of the bytes below
  \<^verbatim>\<open>0x80\<close> it copies those of \<^verbatim>\<open>htmlSafeSet\<close>; it writes the quote and the
  backslash behind a backslash, backspace, form feed, line feed, carriage return and tab
  as a backslash and one of the letters b, f, n, r, t, and every other one (the remaining
  control characters and the three characters less-than, greater-than, ampersand) as a
  backslash, the letter u, two zeros and two hexadecimal digits.  From \<^verbatim>\<open>0x80\<close> on it
  decodes a rune: a byte that starts no well-formed rune is replaced by the escape of
  U+FFFD (the documented coercion of strings to valid UTF-8), U+2028 and U+2029 are
  written as escapes, any other rune is copied.
\<close>

definition hex :: "nat \<Rightarrow> char" where
  "hex n = ''0123456789abcdef'' ! (n mod 16)"

definition htmlSafeSet :: "char \<Rightarrow> bool" where
  "htmlSafeSet b \<longleftrightarrow>
     0x20 \<le> byte b \<and> byte b < 0x80
     \<and> b \<noteq> dquote \<and> b \<noteq> CHR ''&'' \<and> b \<noteq> CHR ''<'' \<and> b \<noteq> CHR ''>'' \<and> b \<noteq> bslash"

definition escape_ascii :: "char \<Rightarrow> string" where
  "escape_ascii b =
     (if htmlSafeSet b then [b]
      else if b = bslash \<or> b = dquote then [bslash, b]
      else if b = CHR 0x08 then [bslash, CHR ''b'']
      else if b = CHR 0x0C then [bslash, CHR ''f'']
      else if b = CHR 0x0A then [bslash, CHR ''n'']
      else if b = CHR 0x0D then [bslash, CHR ''r'']
      else if b = CHR 0x09 then [bslash, CHR ''t'']
      else [bslash, CHR ''u'', CHR ''0'', CHR ''0'', hex (byte b div 16), hex (byte b mod 16)])"

definition LineSep :: string where
  "LineSep = [CHR 0xE2, CHR 0x80, CHR 0xA8]"

definition ParSep :: string where
  "ParSep = [CHR 0xE2, CHR 0x80, CHR 0xA9]"

text \<open>
  One round of the loop of \<^verbatim>\<open>appendString\<close>: what it appends for the rune at the front
  of the input, and how many bytes of the input that rune takes.
\<close>

fun escape_rune :: "string \<Rightarrow> string \<times> nat" where
  "escape_rune [] = ([], 0)"
| "escape_rune (b # bs) =
     (if byte b < 0x80 then (escape_ascii b, 1)
      else let n = rune_len (b # bs) in
        if n = 0 then (bslash # ''ufffd'', 1)
        else if take n (b # bs) = LineSep then (bslash # ''u2028'', n)
        else if take n (b # bs) = ParSep then (bslash # ''u2029'', n)
        else (take n (b # bs), n))"

fun escape :: "string \<Rightarrow> string" where
  "escape [] = []"
| "escape (b # bs) =
     (case escape_rune (b # bs) of (out, n) \<Rightarrow> out @ escape (drop (n - 1) bs))"

definition appendString :: "string \<Rightarrow> string" where
  "appendString src = dquote # escape src @ [dquote]"

section \<open>Reading JSON strings and objects\<close>

text \<open>
  \<^verbatim>\<open>json.Unmarshal\<close> first checks that its input is one JSON value and then decodes
  it.  \<open>getu4\<close> reads the four hexadecimal digits of a backslash-u escape from the slice
  that starts at the backslash; \<open>unquote\<close> reads a string literal from behind its opening
  quote up to the closing one, and returns the decoded bytes with the rest of the input.
  As \<^verbatim>\<open>unquoteBytes\<close> does, it turns a malformed rune and an unpaired surrogate escape
  into U+FFFD, and as the scanner does it refuses a raw control character, an unknown
  escape and a missing closing quote.
\<close>

definition hexval :: "char \<Rightarrow> nat option" where
  "hexval c =
     (if between 0x30 0x39 c then Some (byte c - 0x30)
      else if between 0x61 0x66 c then Some (byte c - 0x61 + 10)
      else if between 0x41 0x46 c then Some (byte c - 0x41 + 10)
      else None)"

fun getu4 :: "string \<Rightarrow> nat option" where
  "getu4 (b # u # h1 # h2 # h3 # h4 # _) =
     (if b = bslash \<and> u = CHR ''u'' then
        (case (hexval h1, hexval h2, hexval h3, hexval h4) of
           (Some d1, Some d2, Some d3, Some d4) \<Rightarrow> Some (((d1 * 16 + d2) * 16 + d3) * 16 + d4)
         | _ \<Rightarrow> None)
      else None)"
| "getu4 _ = None"

definition IsSurrogate :: "nat \<Rightarrow> bool" where
  "IsSurrogate r \<longleftrightarrow> 0xD800 \<le> r \<and> r < 0xE000"

text \<open>
  \<^verbatim>\<open>utf16.DecodeRune\<close> on a first escape and what \<open>getu4\<close> found behind it: the code
  point of a surrogate pair, U+FFFD otherwise.
\<close>

definition utf16_DecodeRune :: "nat \<Rightarrow> nat option \<Rightarrow> nat" where
  "utf16_DecodeRune r1 r2 =
     (case r2 of
        None \<Rightarrow> 0xFFFD
      | Some r2' \<Rightarrow>
          if 0xD800 \<le> r1 \<and> r1 < 0xDC00 \<and> 0xDC00 \<le> r2' \<and> r2' < 0xE000
          then (r1 - 0xD800) * 1024 + (r2' - 0xDC00) + 0x10000
          else 0xFFFD)"

definition emit :: "string \<Rightarrow> (string \<times> string) option \<Rightarrow> (string \<times> string) option" where
  "emit out r = (case r of None \<Rightarrow> None | Some (s, rest) \<Rightarrow> Some (out @ s, rest))"

text \<open>
  One round of the loop of \<^verbatim>\<open>unquoteBytes\<close>, at a byte that is not the closing quote:
  the bytes it writes and the number of input bytes it consumes, or nothing where the
  literal is malformed.
\<close>

fun unquote_rune :: "string \<Rightarrow> (string \<times> nat) option" where
  "unquote_rune [] = None"
| "unquote_rune (c # cs) =
     (if c = bslash then
        (case cs of
           [] \<Rightarrow> None
         | e # es \<Rightarrow>
             if e = dquote \<or> e = bslash \<or> e = CHR ''/'' then Some ([e], 2)
             else if e = CHR ''b'' then Some ([CHR 0x08], 2)
             else if e = CHR ''f'' then Some ([CHR 0x0C], 2)
             else if e = CHR ''n'' then Some ([CHR 0x0A], 2)
             else if e = CHR ''r'' then Some ([CHR 0x0D], 2)
             else if e = CHR ''t'' then Some ([CHR 0x09], 2)
             else if e = CHR ''u'' then
               (case getu4 (c # cs) of
                  None \<Rightarrow> None
                | Some rr \<Rightarrow>
                    if IsSurrogate rr then
                      (let dec = utf16_DecodeRune rr (getu4 (drop 4 es)) in
                       if dec \<noteq> 0xFFFD then Some (EncodeRune dec, 12)
                       else Some (RuneError, 6))
                    else Some (EncodeRune rr, 6))
             else None)
      else if byte c < 0x20 \<or> c = dquote then None
      else if byte c < 0x80 then Some ([c], 1)
      else let n = rune_len (c # cs) in
        if n = 0 then Some (RuneError, 1) else Some (take n (c # cs), n))"

fun unquote :: "string \<Rightarrow> (string \<times> string) option" where
  "unquote [] = None"
| "unquote (c # cs) =
     (if c = dquote then Some ([], cs)
      else case unquote_rune (c # cs) of
             None \<Rightarrow> None
           | Some (out, n) \<Rightarrow> emit out (unquote (drop (n - 1) cs)))"

lemma emit_Some: "emit out r = Some (s, rest) \<longleftrightarrow> (\<exists>s'. r = Some (s', rest) \<and> s = out @ s')"
  by (auto simp: emit_def split: option.splits)

lemma unquote_shorter: "unquote s = Some (v, r) \<Longrightarrow> length r < length s"
proof (induction s arbitrary: v r rule: unquote.induct)
  case 1
  then show ?case by simp
next
  case (2 c cs)
  show ?case
  proof (cases "c = dquote")
    case True
    with 2(2) show ?thesis by simp
  next
    case False
    with 2(2) obtain out n where st: "unquote_rune (c # cs) = Some (out, n)"
      by (auto split: option.splits)
    with 2(2) False obtain v' where "unquote (drop (n - 1) cs) = Some (v', r)"
      by (auto simp: emit_Some)
    with 2(1)[OF False st refl] have "length r < length (drop (n - 1) cs)" by simp
    then show ?thesis by simp
  qed
qed

text \<open>
  The documents read here are the JSON objects whose member values are string literals
  or \<^verbatim>\<open>null\<close>, and the document \<^verbatim>\<open>null\<close>, with white space wherever JSON allows it:
  every document this contract writes is of that shape.  A member value of another JSON
  type is reported as a syntax error; \<^verbatim>\<open>encoding/json\<close> reports a type error when the
  member is a field of the struct and skips the value when it is not.
\<close>

definition isSpace :: "char \<Rightarrow> bool" where
  "isSpace c \<longleftrightarrow> c = CHR '' '' \<or> c = CHR 0x09 \<or> c = CHR 0x0D \<or> c = CHR 0x0A"

definition skip :: "string \<Rightarrow> string" where
  "skip s = dropWhile isSpace s"

definition value_lit :: "string \<Rightarrow> (string option \<times> string) option" where
  "value_lit s =
     (case s of
        [] \<Rightarrow> None
      | c # r \<Rightarrow>
          if c = dquote then
            (case unquote r of None \<Rightarrow> None | Some (v, r') \<Rightarrow> Some (Some v, r'))
          else if take 4 s = ''null'' then Some (None, drop 4 s)
          else None)"

lemma skip_length: "length (skip s) \<le> length s"
  by (simp add: skip_def length_dropWhile_le)

lemma value_lit_shorter: "value_lit s = Some (v, r) \<Longrightarrow> length r < length s"
  by (auto simp: value_lit_def split: list.splits if_splits option.splits
      dest: unquote_shorter)

function members :: "string \<Rightarrow> ((string \<times> string option) list \<times> string) option" where
  "members s =
     (case skip s of
        [] \<Rightarrow> None
      | c # r \<Rightarrow>
          if c \<noteq> dquote then None
          else
            (case unquote r of
               None \<Rightarrow> None
             | Some (k, r1) \<Rightarrow>
                 (case skip r1 of
                    [] \<Rightarrow> None
                  | c1 # r2 \<Rightarrow>
                      if c1 \<noteq> CHR '':'' then None
                      else
                        (case value_lit (skip r2) of
                           None \<Rightarrow> None
                         | Some (v, r3) \<Rightarrow>
                             (case skip r3 of
                                [] \<Rightarrow> None
                              | c3 # r4 \<Rightarrow>
                                  if c3 = CHR '','' then
                                    (case members r4 of
                                       None \<Rightarrow> None
                                     | Some (ms, r5) \<Rightarrow> Some ((k, v) # ms, r5))
                                  else if c3 = CHR ''}'' then Some ([(k, v)], r4)
                                  else None)))))"
  by pat_completeness auto
termination
proof (relation "measure length", goal_cases)
  case 1
  show ?case by simp
next
  case (2 s c r p k r1 c1 r2 q v r3 c3 r4)
  have "length r4 < length (skip r3)" using 2 by simp
  also have "\<dots> \<le> length r3" by (rule skip_length)
  also have "\<dots> < length (skip r2)" using 2 by (auto dest: value_lit_shorter)
  also have "\<dots> \<le> length r2" by (rule skip_length)
  also have "\<dots> < length (skip r1)" using 2 by simp
  also have "\<dots> \<le> length r1" by (rule skip_length)
  also have "\<dots> < length r" using 2 by (auto dest: unquote_shorter)
  also have "\<dots> < length (skip s)" using 2 by simp
  also have "\<dots> \<le> length s" by (rule skip_length)
  finally show ?case by simp
qed

declare members.simps [simp del]

definition document :: "string \<Rightarrow> (string \<times> string option) list option" where
  "document s =
     (case skip s of
        [] \<Rightarrow> None
      | c # r \<Rightarrow>
          if c = CHR ''{'' then
            (case skip r of
               [] \<Rightarrow> None
             | c' # r' \<Rightarrow>
                 if c' = CHR ''}'' then (if skip r' = [] then Some [] else None)
                 else
                   (case members r of
                      None \<Rightarrow> None
                    | Some (ms, r'') \<Rightarrow> if skip r'' = [] then Some ms else None))
          else if take 4 (c # r) = ''null'' \<and> skip (drop 4 (c # r)) = [] then Some []
          else None)"

section \<open>The entities and their JSON documents\<close>

text \<open>
  The two structs of \<^verbatim>\<open>smartcontract.go\<close>.  Their fields are Go strings; the struct
  tags name the members of the JSON object, and \<^verbatim>\<open>verifierID\<close> is left out of the
  document when it is empty (\<^verbatim>\<open>omitempty\<close>).
\<close>

record Device =
  ID :: string
  Owner :: string
  Location :: string
  Status :: string

record DataRecord =
  DeviceID :: string
  Timestamp :: string
  Data :: string
  Status :: string
  VerifierID :: string

datatype error =
    EmptyKey
  | InvalidAttribute string
  | SyntaxError
  | ReadWorldStateFailed error
  | CheckExistenceFailed error
  | AlreadyRegistered string
  | NotRegistered string
  | CreateKeyFailed error
  | GetRecordFailed error
  | RecordDoesNotExist string string
  | UnmarshalRecordFailed error
  | ReadDeviceFailed error
  | DeviceDoesNotExist string
  | UnmarshalDeviceFailed error
  | RecordNotFound

text \<open>
  The error values are the error sites of the source: \<open>EmptyKey\<close> and
  \<open>InvalidAttribute\<close> come from the ledger stub, \<open>SyntaxError\<close> from
  \<^verbatim>\<open>json.Unmarshal\<close>, the others are the \<^verbatim>\<open>fmt.Errorf\<close> calls of the contract, those
  with an argument of type \<open>error\<close> wrapping the error they report.  \<open>kind_of\<close> files
  them under the names the specification uses.
\<close>

datatype kind = AlreadyExists | NotFound | DeviceNotRegistered | DeserializationError | LedgerIOError

fun kind_of :: "error \<Rightarrow> kind" where
  "kind_of (AlreadyRegistered _) = AlreadyExists"
| "kind_of (NotRegistered _) = DeviceNotRegistered"
| "kind_of (RecordDoesNotExist _ _) = NotFound"
| "kind_of (DeviceDoesNotExist _) = NotFound"
| "kind_of RecordNotFound = NotFound"
| "kind_of (UnmarshalRecordFailed _) = DeserializationError"
| "kind_of (UnmarshalDeviceFailed _) = DeserializationError"
| "kind_of SyntaxError = DeserializationError"
| "kind_of _ = LedgerIOError"

definition Device_json :: "Device \<Rightarrow> string" where
  "Device_json d =
     ''{\"id\":'' @ appendString (ID d)
     @ '',\"owner\":'' @ appendString (Owner d)
     @ '',\"location\":'' @ appendString (Location d)
     @ '',\"status\":'' @ appendString (Device.Status d) @ ''}''"

definition DataRecord_json :: "DataRecord \<Rightarrow> string" where
  "DataRecord_json r =
     ''{\"deviceID\":'' @ appendString (DeviceID r)
     @ '',\"timestamp\":'' @ appendString (Timestamp r)
     @ '',\"data\":'' @ appendString (Data r)
     @ '',\"status\":'' @ appendString (DataRecord.Status r)
     @ (if VerifierID r = [] then [] else '',\"verifierID\":'' @ appendString (VerifierID r))
     @ ''}''"

text \<open>
  \<^verbatim>\<open>json.Marshal\<close> returns an error for values it cannot encode (channels, functions,
  cyclic data); a struct of strings is none of them, so the error branch that the
  contract tests after each call is never taken.
\<close>

definition json_Marshal_Device :: "Device \<Rightarrow> error + string" where
  "json_Marshal_Device d = Inr (Device_json d)"

definition json_Marshal_DataRecord :: "DataRecord \<Rightarrow> error + string" where
  "json_Marshal_DataRecord r = Inr (DataRecord_json r)"

text \<open>
  \<^verbatim>\<open>json.Unmarshal\<close> stores the value of a member in the field whose name is the key,
  or else in the field whose name equals the key when letter case is ignored; a member
  that names no field is skipped, \<^verbatim>\<open>null\<close> leaves the field as it is, and of two
  members for one field the later wins.  \<open>foldName\<close> is the case folding: it writes ASCII
  letters in upper case and the two runes outside ASCII that fold to an ASCII letter
  (U+017F to S, U+212A to K) as that letter.  Every other rune is left as it is here,
  which is enough to compare the result with the folded field names, all ASCII.
\<close>

fun foldName :: "string \<Rightarrow> string" where
  "foldName [] = []"
| "foldName (c # cs) =
     (if between 0x61 0x7A c then char_of (byte c - 0x20) # foldName cs
      else if take 2 (c # cs) = [CHR 0xC5, CHR 0xBF] then CHR ''S'' # foldName (drop 1 cs)
      else if take 3 (c # cs) = [CHR 0xE2, CHR 0x84, CHR 0xAA] then CHR ''K'' # foldName (drop 2 cs)
      else c # foldName cs)"

definition field :: "string list \<Rightarrow> string \<Rightarrow> string option" where
  "field names key =
     (if key \<in> set names then Some key
      else find (\<lambda>n. foldName n = foldName key) names)"

definition store :: "string list \<Rightarrow> (string \<Rightarrow> string \<Rightarrow> 'a \<Rightarrow> 'a) \<Rightarrow> 'a \<Rightarrow> string \<times> string option \<Rightarrow> 'a" where
  "store names assign x m =
     (case m of (k, v) \<Rightarrow>
        (case field names k of
           None \<Rightarrow> x
         | Some f \<Rightarrow> (case v of None \<Rightarrow> x | Some str \<Rightarrow> assign f str x)))"

definition Device_fields :: "string list" where
  "Device_fields = [''id'', ''owner'', ''location'', ''status'']"

definition set_Device :: "string \<Rightarrow> string \<Rightarrow> Device \<Rightarrow> Device" where
  "set_Device f v d =
     (if f = ''id'' then d\<lparr>ID := v\<rparr>
      else if f = ''owner'' then d\<lparr>Owner := v\<rparr>
      else if f = ''location'' then d\<lparr>Location := v\<rparr>
      else d\<lparr>Device.Status := v\<rparr>)"

definition zero_Device :: Device where
  "zero_Device = \<lparr>ID = [], Owner = [], Location = [], Status = []\<rparr>"

definition json_Unmarshal_Device :: "string \<Rightarrow> error + Device" where
  "json_Unmarshal_Device data =
     (case document data of
        None \<Rightarrow> Inl SyntaxError
      | Some ms \<Rightarrow> Inr (foldl (store Device_fields set_Device) zero_Device ms))"

definition DataRecord_fields :: "string list" where
  "DataRecord_fields = [''deviceID'', ''timestamp'', ''data'', ''status'', ''verifierID'']"

definition set_DataRecord :: "string \<Rightarrow> string \<Rightarrow> DataRecord \<Rightarrow> DataRecord" where
  "set_DataRecord f v r =
     (if f = ''deviceID'' then r\<lparr>DeviceID := v\<rparr>
      else if f = ''timestamp'' then r\<lparr>Timestamp := v\<rparr>
      else if f = ''data'' then r\<lparr>Data := v\<rparr>
      else if f = ''status'' then r\<lparr>DataRecord.Status := v\<rparr>
      else r\<lparr>VerifierID := v\<rparr>)"

definition zero_DataRecord :: DataRecord where
  "zero_DataRecord = \<lparr>DeviceID = [], Timestamp = [], Data = [], Status = [], VerifierID = []\<rparr>"

definition json_Unmarshal_DataRecord :: "string \<Rightarrow> error + DataRecord" where
  "json_Unmarshal_DataRecord data =
     (case document data of
        None \<Rightarrow> Inl SyntaxError
      | Some ms \<Rightarrow> Inr (foldl (store DataRecord_fields set_DataRecord) zero_DataRecord ms))"

section \<open>The ledger\<close>

text \<open>
  The contract reaches the ledger through the stub of its transaction context, which is
  not part of the repository.  The specification describes this collaborator as a
  deterministic store from keys to payloads with \<^verbatim>\<open>Get\<close>, \<^verbatim>\<open>Put\<close> and the
  construction of composite keys.  The model follows that description, with the details
  of the stub of Hyperledger Fabric: \<^verbatim>\<open>GetState\<close> returns the payload under a key, or
  \<^verbatim>\<open>nil\<close> where there is none; \<^verbatim>\<open>PutState\<close> refuses the empty key and otherwise
  replaces the payload; \<^verbatim>\<open>CreateCompositeKey\<close> refuses an object type or an attribute
  that is not valid UTF-8 or holds U+0000 or U+10FFFF, and otherwise writes the byte
  \<^verbatim>\<open>0x00\<close>, the object type and each attribute, each followed by \<^verbatim>\<open>0x00\<close>.  The
  ledger also records the accesses made to it, in order, so that the reads and writes of
  an operation can be counted.
\<close>

datatype access = Read string | Write string string

record ledger =
  world :: "string \<rightharpoonup> string"
  accesses :: "access list"

definition GetState :: "ledger \<Rightarrow> string \<Rightarrow> (error + string option) \<times> ledger" where
  "GetState l key = (Inr (world l key), l\<lparr>accesses := accesses l @ [Read key]\<rparr>)"

definition PutState :: "ledger \<Rightarrow> string \<Rightarrow> string \<Rightarrow> (error + unit) \<times> ledger" where
  "PutState l key val =
     (if key = [] then (Inl EmptyKey, l)
      else (Inr (), l\<lparr>world := (world l)(key \<mapsto> val),
                      accesses := accesses l @ [Write key val]\<rparr>))"

text \<open>The runes of a string, as a \<^verbatim>\<open>range\<close> loop visits them.\<close>

fun runes :: "string \<Rightarrow> string list" where
  "runes [] = []"
| "runes (b # bs) =
     (let n = rune_len (b # bs) in take (max n 1) (b # bs) # runes (drop (n - 1) bs))"

definition minUnicodeRune :: string where
  "minUnicodeRune = [CHR 0x00]"

definition maxUnicodeRune :: string where
  "maxUnicodeRune = [CHR 0xF4, CHR 0x8F, CHR 0xBF, CHR 0xBF]"

definition validateCompositeKeyAttribute :: "string \<Rightarrow> error + unit" where
  "validateCompositeKeyAttribute str =
     (if \<not> ValidString str then Inl (InvalidAttribute str)
      else if minUnicodeRune \<in> set (runes str) \<or> maxUnicodeRune \<in> set (runes str)
      then Inl (InvalidAttribute str)
      else Inr ())"

fun appendAttributes :: "string \<Rightarrow> string list \<Rightarrow> error + string" where
  "appendAttributes ck [] = Inr ck"
| "appendAttributes ck (att # atts) =
     (case validateCompositeKeyAttribute att of
        Inl err \<Rightarrow> Inl err
      | Inr _ \<Rightarrow> appendAttributes (ck @ att @ minUnicodeRune) atts)"

definition CreateCompositeKey :: "string \<Rightarrow> string list \<Rightarrow> error + string" where
  "CreateCompositeKey objectType attributes =
     (case validateCompositeKeyAttribute objectType of
        Inl err \<Rightarrow> Inl err
      | Inr _ \<Rightarrow> appendAttributes (CHR 0x00 # objectType @ minUnicodeRune) attributes)"

section \<open>The smart contract\<close>

text \<open>
  The six operations of \<^verbatim>\<open>smartcontract.go\<close>, statement by statement.  Each takes
  the ledger and returns its result, an error or a value, with the ledger it leaves.
\<close>

definition DeviceExists :: "ledger \<Rightarrow> string \<Rightarrow> (error + bool) \<times> ledger" where
  "DeviceExists l deviceID =
     (case GetState l deviceID of
        (Inl err, l') \<Rightarrow> (Inl (ReadWorldStateFailed err), l')
      | (Inr deviceJSON, l') \<Rightarrow> (Inr (deviceJSON \<noteq> None), l'))"

definition RegisterDevice :: "ledger \<Rightarrow> string \<Rightarrow> string \<Rightarrow> string \<Rightarrow> (error + unit) \<times> ledger" where
  "RegisterDevice l deviceID owner location =
     (case DeviceExists l deviceID of
        (Inl err, l') \<Rightarrow> (Inl (CheckExistenceFailed err), l')
      | (Inr exists, l') \<Rightarrow>
          if exists then (Inl (AlreadyRegistered deviceID), l')
          else
            let device = \<lparr>ID = deviceID, Owner = owner, Location = location,
                          Status = ''active''\<rparr>
            in (case json_Marshal_Device device of
                  Inl err \<Rightarrow> (Inl err, l')
                | Inr deviceJSON \<Rightarrow> PutState l' deviceID deviceJSON))"

definition SubmitData :: "ledger \<Rightarrow> string \<Rightarrow> string \<Rightarrow> string \<Rightarrow> (error + unit) \<times> ledger" where
  "SubmitData l deviceID timestamp data =
     (case DeviceExists l deviceID of
        (Inl err, l') \<Rightarrow> (Inl (CheckExistenceFailed err), l')
      | (Inr exists, l') \<Rightarrow>
          if \<not> exists then (Inl (NotRegistered deviceID), l')
          else
            let dataRecord = \<lparr>DeviceID = deviceID, Timestamp = timestamp, Data = data,
                              Status = ''pending'', VerifierID = []\<rparr>
            in (case CreateCompositeKey ''DataRecord'' [deviceID, timestamp] of
                  Inl err \<Rightarrow> (Inl (CreateKeyFailed err), l')
                | Inr dataKey \<Rightarrow>
                    (case json_Marshal_DataRecord dataRecord of
                       Inl err \<Rightarrow> (Inl err, l')
                     | Inr dataJSON \<Rightarrow> PutState l' dataKey dataJSON)))"

definition VerifyData :: "ledger \<Rightarrow> string \<Rightarrow> string \<Rightarrow> string \<Rightarrow> bool \<Rightarrow> (error + unit) \<times> ledger" where
  "VerifyData l deviceID timestamp verifierID isValid =
     (case CreateCompositeKey ''DataRecord'' [deviceID, timestamp] of
        Inl err \<Rightarrow> (Inl (CreateKeyFailed err), l)
      | Inr dataKey \<Rightarrow>
          (case GetState l dataKey of
             (Inl err, l') \<Rightarrow> (Inl (GetRecordFailed err), l')
           | (Inr None, l') \<Rightarrow> (Inl (RecordDoesNotExist deviceID timestamp), l')
           | (Inr (Some dataJSON), l') \<Rightarrow>
               (case json_Unmarshal_DataRecord dataJSON of
                  Inl err \<Rightarrow> (Inl (UnmarshalRecordFailed err), l')
                | Inr dataRecord \<Rightarrow>
                    let dataRecord' =
                          dataRecord\<lparr>DataRecord.Status := (if isValid then ''verified'' else ''rejected''),
                                     VerifierID := verifierID\<rparr>
                    in (case json_Marshal_DataRecord dataRecord' of
                          Inl err \<Rightarrow> (Inl err, l')
                        | Inr updatedDataJSON \<Rightarrow> PutState l' dataKey updatedDataJSON))))"

definition GetDevice :: "ledger \<Rightarrow> string \<Rightarrow> (error + Device) \<times> ledger" where
  "GetDevice l deviceID =
     (case GetState l deviceID of
        (Inl err, l') \<Rightarrow> (Inl (ReadDeviceFailed err), l')
      | (Inr None, l') \<Rightarrow> (Inl (DeviceDoesNotExist deviceID), l')
      | (Inr (Some deviceJSON), l') \<Rightarrow>
          (case json_Unmarshal_Device deviceJSON of
             Inl err \<Rightarrow> (Inl (UnmarshalDeviceFailed err), l')
           | Inr device \<Rightarrow> (Inr device, l')))"

definition GetDataRecord :: "ledger \<Rightarrow> string \<Rightarrow> string \<Rightarrow> (error + DataRecord) \<times> ledger" where
  "GetDataRecord l deviceID timestamp =
     (case CreateCompositeKey ''DataRecord'' [deviceID, timestamp] of
        Inl err \<Rightarrow> (Inl (CreateKeyFailed err), l)
      | Inr dataKey \<Rightarrow>
          (case GetState l dataKey of
             (Inl err, l') \<Rightarrow> (Inl (GetRecordFailed err), l')
           | (Inr None, l') \<Rightarrow> (Inl RecordNotFound, l')
           | (Inr (Some dataJSON), l') \<Rightarrow>
               (case json_Unmarshal_DataRecord dataJSON of
                  Inl err \<Rightarrow> (Inl (UnmarshalRecordFailed err), l')
                | Inr dataRecord \<Rightarrow> (Inr dataRecord, l'))))"

section \<open>Sequences of transactions\<close>

text \<open>
  A transaction is a call of one of the six operations; the ledger it leaves is the
  ledger of the next one.  \<open>genesis\<close> is the ledger before the first transaction.
\<close>

datatype call =
    RegisterDeviceCall string string string
  | DeviceExistsCall string
  | GetDeviceCall string
  | SubmitDataCall string string string
  | GetDataRecordCall string string
  | VerifyDataCall string string string bool

fun invoke :: "ledger \<Rightarrow> call \<Rightarrow> ledger" where
  "invoke l (RegisterDeviceCall deviceID owner location) =
     snd (RegisterDevice l deviceID owner location)"
| "invoke l (DeviceExistsCall deviceID) = snd (DeviceExists l deviceID)"
| "invoke l (GetDeviceCall deviceID) = snd (GetDevice l deviceID)"
| "invoke l (SubmitDataCall deviceID timestamp data) =
     snd (SubmitData l deviceID timestamp data)"
| "invoke l (GetDataRecordCall deviceID timestamp) = snd (GetDataRecord l deviceID timestamp)"
| "invoke l (VerifyDataCall deviceID timestamp verifierID isValid) =
     snd (VerifyData l deviceID timestamp verifierID isValid)"

definition run :: "ledger \<Rightarrow> call list \<Rightarrow> ledger" where
  "run l cs = foldl invoke l cs"

definition genesis :: ledger where
  "genesis = \<lparr>world = Map.empty, accesses = []\<rparr>"

section \<open>Reading back what was written\<close>

text \<open>
  What a string has become once it has been written by \<^verbatim>\<open>json.Marshal\<close> and read
  back: every byte that starts no well-formed rune is U+FFFD, everything else is as it
  was.
\<close>

fun coerced :: "string \<Rightarrow> string" where
  "coerced [] = []"
| "coerced (b # bs) =
     (let n = rune_len (b # bs) in
      if n = 0 then RuneError @ coerced bs
      else take n (b # bs) @ coerced (drop (n - 1) bs))"

lemma rune_len_le: "rune_len s \<le> length s"
  by (simp add: rune_len_def rune_at_def)

lemma rune_at_append_iff: "k \<le> n \<Longrightarrow> n \<le> length s \<Longrightarrow> rune_at k (take n s @ t) = rune_at k s"
  by (simp add: rune_at_def min_def)

lemma rune_len_append: "rune_len s \<noteq> 0 \<Longrightarrow> rune_len (take (rune_len s) s @ t) = rune_len s"
proof -
  assume a: "rune_len s \<noteq> 0"
  let ?n = "rune_len s"
  have le: "?n \<le> length s" by (rule rune_len_le)
  have eq: "\<And>k. k \<le> ?n \<Longrightarrow> rune_at k (take ?n s @ t) = rune_at k s"
    using le by (rule rune_at_append_iff[rotated])
  show ?thesis using a eq[of 1] eq[of 2] eq[of 3] eq[of 4]
    by (simp add: rune_len_def split: if_splits)
qed

lemma rune_len_ascii: "byte b < 0x80 \<Longrightarrow> rune_len (b # bs) = 1"
  by (simp add: rune_len_def rune_at_def)

lemma hexval_hex: "k < 16 \<Longrightarrow> hexval (hex k) = Some k"
proof -
  assume "k < 16"
  then have "k \<in> {..<16}" by simp
  then have "k = 0 \<or> k = 1 \<or> k = 2 \<or> k = 3 \<or> k = 4 \<or> k = 5 \<or> k = 6 \<or> k = 7 \<or> k = 8 \<or> k = 9 \<or> k = 10 \<or> k = 11 \<or> k = 12 \<or> k = 13 \<or> k = 14 \<or> k = 15"
    by (simp add: lessThan_nat_numeral lessThan_Suc) blast
  then show ?thesis
    by (elim disjE) (simp_all add: hex_def hexval_def between_def byte_def)
qed

lemma unquote_chunk:
  assumes "out \<noteq> []" and "hd out \<noteq> dquote"
    and "unquote_rune (out @ t) = Some (dec, length out)"
  shows "unquote (out @ t) = emit dec (unquote t)"
proof -
  from assms(1) obtain c cs where out: "out = c # cs" by (cases out) auto
  with assms(2) have c: "c \<noteq> dquote" by simp
  from assms(3) out have "unquote_rune (c # (cs @ t)) = Some (dec, Suc (length cs))" by simp
  with c have "unquote (c # (cs @ t)) = emit dec (unquote (drop (length cs) (cs @ t)))"
    by (simp del: unquote_rune.simps)
  with out show ?thesis by simp
qed

lemma getu4_ascii:
  assumes "byte b < 0x80"
  shows "getu4 (bslash # CHR ''u'' # CHR ''0'' # CHR ''0'' # hex (byte b div 16) # hex (byte b mod 16) # t) = Some (byte b)"
proof -
  have "byte b div 16 < 16" using assms by simp
  then have 1: "hexval (hex (byte b div 16)) = Some (byte b div 16)" by (rule hexval_hex)
  have 2: "hexval (hex (byte b mod 16)) = Some (byte b mod 16)" by (rule hexval_hex) simp
  have 0: "hexval (CHR ''0'') = Some 0" by (simp add: hexval_def between_def byte_def)
  show ?thesis by (simp add: 0 1 2)
qed

lemma char_of_byte: "char_of (byte b) = b"
  by (simp add: byte_def)

lemma escape_ascii_unquote:
  assumes "byte b < 0x80"
  shows "escape_ascii b \<noteq> [] \<and> hd (escape_ascii b) \<noteq> dquote
         \<and> unquote_rune (escape_ascii b @ t) = Some ([b], length (escape_ascii b))"
proof (cases "htmlSafeSet b")
  case True
  then show ?thesis using assms
    by (auto simp: escape_ascii_def htmlSafeSet_def)
next
  case False
  note nsafe = this
  show ?thesis
  proof (cases "b = bslash \<or> b = dquote \<or> b = CHR 0x08 \<or> b = CHR 0x0C \<or> b = CHR 0x0A \<or> b = CHR 0x0D \<or> b = CHR 0x09")
    case True
    then show ?thesis using nsafe
      by (elim disjE) (simp_all add: escape_ascii_def htmlSafeSet_def byte_def)
  next
    case False
    then have "escape_ascii b = [bslash, CHR ''u'', CHR ''0'', CHR ''0'', hex (byte b div 16), hex (byte b mod 16)]"
      using nsafe by (simp add: escape_ascii_def)
    moreover have "\<not> IsSurrogate (byte b)" using assms by (simp add: IsSurrogate_def)
    moreover have "EncodeRune (byte b) = [b]" using assms by (simp add: EncodeRune_def char_of_byte)
    ultimately show ?thesis using getu4_ascii[OF assms, of t]
      by (simp del: getu4.simps)
  qed
qed

lemma getu4_fffd: "getu4 (bslash # CHR ''u'' # CHR ''f'' # CHR ''f'' # CHR ''f'' # CHR ''d'' # t) = Some 0xFFFD"
  by (simp add: hexval_def between_def byte_def)

lemma getu4_2028: "getu4 (bslash # CHR ''u'' # CHR ''2'' # CHR ''0'' # CHR ''2'' # CHR ''8'' # t) = Some 0x2028"
  by (simp add: hexval_def between_def byte_def)

lemma getu4_2029: "getu4 (bslash # CHR ''u'' # CHR ''2'' # CHR ''0'' # CHR ''2'' # CHR ''9'' # t) = Some 0x2029"
  by (simp add: hexval_def between_def byte_def)

lemma EncodeRune_consts:
  "EncodeRune 0xFFFD = RuneError" "EncodeRune 0x2028 = LineSep" "EncodeRune 0x2029 = ParSep"
  by (simp_all add: EncodeRune_def RuneError_def LineSep_def ParSep_def char_of_eq_iff take_bit_eq_mod)

lemma not_surrogate_consts:
  "\<not> IsSurrogate 0xFFFD" "\<not> IsSurrogate 0x2028" "\<not> IsSurrogate 0x2029"
  by (simp_all add: IsSurrogate_def)

text \<open>The rune that \<^verbatim>\<open>unquoteBytes\<close> writes for the rune at the front of a string.\<close>

definition decoded :: "string \<Rightarrow> string" where
  "decoded s = (let n = rune_len s in if n = 0 then RuneError else take n s)"

lemma escape_rune_unquote:
  assumes "escape_rune (b # bs) = (out, n)"
  shows "out \<noteq> [] \<and> hd out \<noteq> dquote
         \<and> unquote_rune (out @ t) = Some (decoded (b # bs), length out)
         \<and> n = max 1 (rune_len (b # bs))"
proof (cases "byte b < 0x80")
  case True
  with assms have "out = escape_ascii b" "n = 1" by auto
  moreover have "decoded (b # bs) = [b]" using True by (simp add: decoded_def rune_len_ascii)
  ultimately show ?thesis using escape_ascii_unquote[OF True, of t] rune_len_ascii[OF True, of bs]
    by simp
next
  case False
  note hi = this
  show ?thesis
  proof (cases "rune_len (b # bs) = 0")
    case True
    with assms hi have "out = bslash # ''ufffd''" "n = 1" by auto
    then show ?thesis using True getu4_fffd[of t]
      by (simp add: decoded_def EncodeRune_consts not_surrogate_consts del: getu4.simps)
  next
    case False
    let ?n = "rune_len (b # bs)"
    let ?r = "take ?n (b # bs)"
    have dec: "decoded (b # bs) = ?r" using False by (simp add: decoded_def)
    have n: "n = ?n" using assms hi False by (auto simp: Let_def split: if_splits)
    have n1: "max 1 ?n = ?n" using False by simp
    show ?thesis
    proof (cases "?r = LineSep \<or> ?r = ParSep")
      case True
      with assms hi False have "out = bslash # ''u2028'' \<and> ?r = LineSep \<or> out = bslash # ''u2029'' \<and> ?r = ParSep"
        by (auto simp: Let_def LineSep_def ParSep_def)
      then show ?thesis using getu4_2028[of t] getu4_2029[of t] n n1 dec
        by (auto simp add: EncodeRune_consts not_surrogate_consts simp del: getu4.simps)
    next
      case False
      with assms hi \<open>?n \<noteq> 0\<close> have out: "out = ?r" by (auto simp: Let_def)
      have len: "length ?r = ?n" using rune_len_le[of "b # bs"] by simp
      obtain m where m: "?n = Suc m" using \<open>?n \<noteq> 0\<close> by (cases ?n) auto
      then have r: "?r = b # take m bs" by simp
      have rl: "rune_len (?r @ t) = ?n" using \<open>?n \<noteq> 0\<close> by (rule rune_len_append)
      have b1: "b \<noteq> bslash" "b \<noteq> dquote" "\<not> byte b < 0x20" using hi by (auto simp: byte_def)
      have "unquote_rune (b # (take m bs @ t)) = Some (take ?n (b # (take m bs @ t)), ?n)"
        using b1 hi rl r \<open>?n \<noteq> 0\<close> by (simp add: Let_def)
      moreover have "take ?n (b # (take m bs @ t)) = ?r"
        using len r m by simp
      ultimately show ?thesis using out r len n n1 dec b1 by simp
    qed
  qed
qed

lemma coerced_decoded:
  "coerced (b # bs) = decoded (b # bs) @ coerced (drop (max 1 (rune_len (b # bs)) - 1) bs)"
  by (simp add: decoded_def Let_def)

lemma unquote_escape: "unquote (escape s @ dquote # rest) = Some (coerced s, rest)"
proof (induction s rule: escape.induct)
  case 1
  show ?case by simp
next
  case (2 b bs)
  obtain out n where st: "escape_rune (b # bs) = (out, n)" by (cases "escape_rune (b # bs)")
  from escape_rune_unquote[OF st, of "escape (drop (n - 1) bs) @ dquote # rest"]
  have a: "out \<noteq> []" "hd out \<noteq> dquote"
    and b: "unquote_rune (out @ escape (drop (n - 1) bs) @ dquote # rest) = Some (decoded (b # bs), length out)"
    and n: "n = max 1 (rune_len (b # bs))" by auto
  have "unquote (out @ escape (drop (n - 1) bs) @ dquote # rest)
        = emit (decoded (b # bs)) (unquote (escape (drop (n - 1) bs) @ dquote # rest))"
    using a b by (rule unquote_chunk)
  also have "\<dots> = emit (decoded (b # bs)) (Some (coerced (drop (n - 1) bs), rest))"
    using 2[OF st[symmetric]] by simp
  also have "\<dots> = Some (coerced (b # bs), rest)"
    unfolding coerced_decoded n by (simp add: emit_def)
  finally show ?case using st by (simp del: escape_rune.simps coerced.simps)
qed

lemma valid_coerced: "ValidString s \<Longrightarrow> coerced s = s"
proof (induction s rule: ValidString.induct)
  case 1
  show ?case by simp
next
  case (2 b bs)
  let ?n = "rune_len (b # bs)"
  from 2(2) have n0: "?n \<noteq> 0" and v: "ValidString (drop (?n - 1) bs)" by (auto simp: Let_def)
  from 2(1)[OF refl] n0 v have "coerced (drop (?n - 1) bs) = drop (?n - 1) bs" by simp
  moreover obtain m where m: "?n = Suc m" using n0 by (cases ?n) auto
  ultimately show ?case using n0 by (simp add: Let_def)
qed

lemma skip_nonspace: "\<not> isSpace c \<Longrightarrow> skip (c # s) = c # s"
  by (simp add: skip_def)

lemma skip_Nil: "skip [] = []"
  by (simp add: skip_def)

lemma nonspace: "\<not> isSpace dquote" "\<not> isSpace (CHR ''{'')" "\<not> isSpace (CHR ''}'')" "\<not> isSpace (CHR '':'')" "\<not> isSpace (CHR '','')"
  by (simp_all add: isSpace_def)

lemma value_lit_escape: "value_lit (dquote # escape s @ dquote # rest) = Some (Some (coerced s), rest)"
  by (simp add: value_lit_def unquote_escape)

text \<open>A string is \<open>plain\<close> when \<^verbatim>\<open>json.Marshal\<close> copies every byte of it.\<close>

definition plain :: "string \<Rightarrow> bool" where
  "plain k \<longleftrightarrow> (\<forall>c \<in> set k. htmlSafeSet c)"

lemma escape_plain: "plain k \<Longrightarrow> escape k = k"
  by (induction k) (auto simp: plain_def escape_ascii_def htmlSafeSet_def)

lemma coerced_plain: "plain k \<Longrightarrow> coerced k = k"
  by (induction k) (auto simp: plain_def htmlSafeSet_def rune_len_ascii)

lemma unquote_plain: "plain k \<Longrightarrow> unquote (k @ dquote # rest) = Some (k, rest)"
  using unquote_escape[of k rest] by (simp add: escape_plain coerced_plain)

lemma member_more:
  assumes "plain k"
  shows "members (dquote # k @ dquote # CHR '':'' # dquote # escape v @ dquote # CHR '','' # rest)
         = (case members rest of None \<Rightarrow> None | Some (ms, r) \<Rightarrow> Some ((k, Some (coerced v)) # ms, r))"
  by (subst members.simps)
     (simp add: skip_nonspace nonspace unquote_plain[OF assms] value_lit_escape)

lemma member_last:
  assumes "plain k"
  shows "members (dquote # k @ dquote # CHR '':'' # dquote # escape v @ dquote # CHR ''}'' # rest)
         = Some ([(k, Some (coerced v))], rest)"
  by (subst members.simps)
     (simp add: skip_nonspace nonspace unquote_plain[OF assms] value_lit_escape)

lemma plain_keys:
  "plain ''id''" "plain ''owner''" "plain ''location''" "plain ''status''"
  "plain ''deviceID''" "plain ''timestamp''" "plain ''data''" "plain ''verifierID''"
  by (simp_all add: plain_def htmlSafeSet_def byte_def)

lemma document_object4:
  assumes "plain k1" "plain k2" "plain k3" "plain k4"
  shows "document (CHR ''{'' # dquote # k1 @ dquote # CHR '':'' # dquote # escape v1 @ dquote # CHR '','' #
      dquote # k2 @ dquote # CHR '':'' # dquote # escape v2 @ dquote # CHR '','' #
      dquote # k3 @ dquote # CHR '':'' # dquote # escape v3 @ dquote # CHR '','' #
      dquote # k4 @ dquote # CHR '':'' # dquote # escape v4 @ dquote # CHR ''}'' # [])
    = Some [(k1, Some (coerced v1)), (k2, Some (coerced v2)), (k3, Some (coerced v3)),
            (k4, Some (coerced v4))]"
  by (simp add: document_def skip_nonspace nonspace skip_Nil
        member_more[OF assms(1)] member_more[OF assms(2)] member_more[OF assms(3)]
        member_last[OF assms(4)])

lemma document_object5:
  assumes "plain k1" "plain k2" "plain k3" "plain k4" "plain k5"
  shows "document (CHR ''{'' # dquote # k1 @ dquote # CHR '':'' # dquote # escape v1 @ dquote # CHR '','' #
      dquote # k2 @ dquote # CHR '':'' # dquote # escape v2 @ dquote # CHR '','' #
      dquote # k3 @ dquote # CHR '':'' # dquote # escape v3 @ dquote # CHR '','' #
      dquote # k4 @ dquote # CHR '':'' # dquote # escape v4 @ dquote # CHR '','' #
      dquote # k5 @ dquote # CHR '':'' # dquote # escape v5 @ dquote # CHR ''}'' # [])
    = Some [(k1, Some (coerced v1)), (k2, Some (coerced v2)), (k3, Some (coerced v3)),
            (k4, Some (coerced v4)), (k5, Some (coerced v5))]"
  by (simp add: document_def skip_nonspace nonspace skip_Nil
        member_more[OF assms(1)] member_more[OF assms(2)] member_more[OF assms(3)]
        member_more[OF assms(4)] member_last[OF assms(5)])

lemma document_Device_json:
  "document (Device_json d)
     = Some [(''id'', Some (coerced (ID d))), (''owner'', Some (coerced (Owner d))),
             (''location'', Some (coerced (Location d))),
             (''status'', Some (coerced (Device.Status d)))]"
  using document_object4[OF plain_keys(1) plain_keys(2) plain_keys(3) plain_keys(4),
      of "ID d" "Owner d" "Location d" "Device.Status d"]
  by (simp add: Device_json_def appendString_def)

lemma document_DataRecord_json:
  "document (DataRecord_json r)
     = Some ([(''deviceID'', Some (coerced (DeviceID r))), (''timestamp'', Some (coerced (Timestamp r))),
             (''data'', Some (coerced (Data r))),
             (''status'', Some (coerced (DataRecord.Status r)))]
            @ (if VerifierID r = [] then [] else [(''verifierID'', Some (coerced (VerifierID r)))]))"
  using document_object4[OF plain_keys(5) plain_keys(6) plain_keys(7) plain_keys(4),
      of "DeviceID r" "Timestamp r" "Data r" "DataRecord.Status r"]
    document_object5[OF plain_keys(5) plain_keys(6) plain_keys(7) plain_keys(4) plain_keys(8),
      of "DeviceID r" "Timestamp r" "Data r" "DataRecord.Status r" "VerifierID r"]
  by (simp add: DataRecord_json_def appendString_def)

text \<open>The entities with every field read back from its JSON form.\<close>

definition coerced_Device :: "Device \<Rightarrow> Device" where
  "coerced_Device d = \<lparr>ID = coerced (ID d), Owner = coerced (Owner d),
     Location = coerced (Location d), Status = coerced (Device.Status d)\<rparr>"

definition coerced_DataRecord :: "DataRecord \<Rightarrow> DataRecord" where
  "coerced_DataRecord r = \<lparr>DeviceID = coerced (DeviceID r), Timestamp = coerced (Timestamp r),
     Data = coerced (Data r), Status = coerced (DataRecord.Status r),
     VerifierID = coerced (VerifierID r)\<rparr>"

lemma field_Device:
  "field Device_fields ''id'' = Some ''id''"
  "field Device_fields ''owner'' = Some ''owner''"
  "field Device_fields ''location'' = Some ''location''"
  "field Device_fields ''status'' = Some ''status''"
  "field Device_fields ''deviceID'' = None"
  "field Device_fields ''timestamp'' = None"
  "field Device_fields ''data'' = None"
  "field Device_fields ''verifierID'' = None"
  by (simp_all add: field_def Device_fields_def between_def byte_def char_of_eq_iff take_bit_eq_mod)

lemma field_DataRecord:
  "field DataRecord_fields ''deviceID'' = Some ''deviceID''"
  "field DataRecord_fields ''timestamp'' = Some ''timestamp''"
  "field DataRecord_fields ''data'' = Some ''data''"
  "field DataRecord_fields ''status'' = Some ''status''"
  "field DataRecord_fields ''verifierID'' = Some ''verifierID''"
  "field DataRecord_fields ''id'' = None"
  "field DataRecord_fields ''owner'' = None"
  "field DataRecord_fields ''location'' = None"
  by (simp_all add: field_def DataRecord_fields_def between_def byte_def char_of_eq_iff take_bit_eq_mod)

lemma Unmarshal_Device_json: "json_Unmarshal_Device (Device_json d) = Inr (coerced_Device d)"
  by (simp add: json_Unmarshal_Device_def document_Device_json store_def field_Device
      set_Device_def zero_Device_def coerced_Device_def)

lemma Unmarshal_DataRecord_json:
  "json_Unmarshal_DataRecord (DataRecord_json r) = Inr (coerced_DataRecord r)"
  by (simp add: json_Unmarshal_DataRecord_def document_DataRecord_json store_def field_DataRecord
      set_DataRecord_def zero_DataRecord_def coerced_DataRecord_def)

lemma Unmarshal_DataRecord_Device_json:
  "json_Unmarshal_DataRecord (Device_json d)
     = Inr \<lparr>DeviceID = [], Timestamp = [], Data = [], Status = coerced (Device.Status d), VerifierID = []\<rparr>"
  by (simp add: json_Unmarshal_DataRecord_def document_Device_json store_def field_DataRecord
      set_DataRecord_def zero_DataRecord_def)

lemma Unmarshal_Device_DataRecord_json:
  "json_Unmarshal_Device (DataRecord_json r)
     = Inr \<lparr>ID = [], Owner = [], Location = [], Status = coerced (DataRecord.Status r)\<rparr>"
  by (simp add: json_Unmarshal_Device_def document_DataRecord_json store_def field_Device
      set_Device_def zero_Device_def)

subsection \<open>Decoded strings are valid UTF-8\<close>

lemma rune_ok_length: "rune_ok c \<Longrightarrow> 1 \<le> length c \<and> length c \<le> 4"
  by (cases c rule: rune_ok.cases) simp_all

lemma rune_ok_chunk: 
  assumes "rune_ok c" shows "rune_len (c @ t) = length c"
  using assms
proof (cases c rule: rune_ok.cases)
  case (1 a)
  with assms show ?thesis by (simp add: rune_len_def rune_at_def)
next
  case (2 a b)
  with assms show ?thesis by (simp add: rune_len_def rune_at_def between_def)
next
  case (3 a b c)
  with assms show ?thesis by (simp add: rune_len_def rune_at_def between_def)
next
  case (4 a b c d)
  with assms show ?thesis by (simp add: rune_len_def rune_at_def between_def)
qed simp_all


lemma rune_len_rune_at: "rune_len s = n \<Longrightarrow> n \<noteq> 0 \<Longrightarrow> rune_ok (take n s)"
  by (auto simp: rune_len_def rune_at_def split: if_splits)

lemma rune_ok_RuneError: "rune_ok RuneError"
  by (simp add: RuneError_def between_def cont_def byte_def)

lemma byte_char_of: "n < 256 \<Longrightarrow> byte (char_of n) = n"
  by (simp add: byte_def)

lemma d4096: "(r::nat) div 4096 = r div 64 div 64"
  using div_mult2_eq[of r 64 64] by simp

lemma d262144: "(r::nat) div 262144 = r div 4096 div 64"
  using div_mult2_eq[of r 4096 64] by simp

lemma enc_e0: "32 \<le> (x::nat) \<Longrightarrow> x div 64 = 0 \<Longrightarrow> 32 \<le> x mod 64"
  by (auto simp: div_eq_0_iff)

lemma enc_ed: "(x::nat) < 864 \<Longrightarrow> x div 64 = 13 \<Longrightarrow> x mod 64 < 32"
  using div_mult_mod_eq[of x 64] by linarith

lemma enc_f0: "16 \<le> (y::nat) \<Longrightarrow> y div 64 = 0 \<Longrightarrow> 16 \<le> y mod 64"
  by (auto simp: div_eq_0_iff)

lemma enc_f4: "(y::nat) < 272 \<Longrightarrow> y div 64 = 4 \<Longrightarrow> y mod 64 < 16"
  using div_mult_mod_eq[of y 64] by linarith

lemma enc_bounds: "0x800 \<le> (r::nat) \<Longrightarrow> 32 \<le> r div 64" "r < 0xD800 \<Longrightarrow> r div 64 < 864" "r < 0x10000 \<Longrightarrow> r div 64 div 64 < 16"
  "0x10000 \<le> r \<Longrightarrow> 16 \<le> r div 4096" "r \<le> 0x10FFFF \<Longrightarrow> r div 4096 < 272" "r \<le> 0x10FFFF \<Longrightarrow> r div 4096 div 64 \<le> 4"
  by simp_all

lemma enc_ee: "896 \<le> (x::nat) \<Longrightarrow> x div 64 \<noteq> 13"
  using div_mult_mod_eq[of x 64] mod_less_divisor[of 64 x] by linarith

lemma rune_ok2I:
  "byte A = 0xC0 + a \<Longrightarrow> byte B = 0x80 + b \<Longrightarrow> 2 \<le> a \<Longrightarrow> a < 32 \<Longrightarrow> b < 64
   \<Longrightarrow> rune_ok [A, B]"
  by (simp add: between_def cont_def)

lemma rune_ok3I:
  "byte A = 0xE0 + a \<Longrightarrow> byte B = 0x80 + b \<Longrightarrow> byte C = 0x80 + c
   \<Longrightarrow> a < 16 \<Longrightarrow> b < 64 \<Longrightarrow> c < 64 \<Longrightarrow> (a = 0 \<longrightarrow> 32 \<le> b) \<Longrightarrow> (a = 13 \<longrightarrow> b < 32)
   \<Longrightarrow> rune_ok [A, B, C]"
  by (auto simp add: between_def cont_def)

lemma rune_ok4I:
  "byte A = 0xF0 + a \<Longrightarrow> byte B = 0x80 + b \<Longrightarrow> byte C = 0x80 + c \<Longrightarrow> byte D = 0x80 + d
   \<Longrightarrow> a \<le> 4 \<Longrightarrow> b < 64 \<Longrightarrow> c < 64 \<Longrightarrow> d < 64 \<Longrightarrow> (a = 0 \<longrightarrow> 16 \<le> b) \<Longrightarrow> (a = 4 \<longrightarrow> b < 16)
   \<Longrightarrow> rune_ok [A, B, C, D]"
  by (auto simp add: between_def cont_def)

lemma enc3_low: "0x800 \<le> (r::nat) \<Longrightarrow> r div 4096 = 0 \<longrightarrow> 32 \<le> r div 64 mod 64"
proof
  assume a: "0x800 \<le> r" and b: "r div 4096 = 0"
  from a have "32 \<le> r div 64" by (rule enc_bounds(1))
  moreover from b have "r div 64 div 64 = 0" by (simp only: d4096)
  ultimately show "32 \<le> r div 64 mod 64" by (rule enc_e0)
qed

lemma enc3_high:
  assumes "r < 0xD800 \<or> 0xE000 \<le> (r::nat)"
  shows "r div 4096 = 13 \<longrightarrow> r div 64 mod 64 < 32"
proof
  assume b: "r div 4096 = 13"
  then have b': "r div 64 div 64 = 13" by (simp only: d4096)
  have "\<not> 0xE000 \<le> r"
  proof
    assume "0xE000 \<le> r"
    then have "896 \<le> r div 64" by simp
    then show False using enc_ee b' by blast
  qed
  with assms have "r < 0xD800" by simp
  then have "r div 64 < 864" by (rule enc_bounds(2))
  then show "r div 64 mod 64 < 32" using b' by (rule enc_ed)
qed

lemma enc4_low: "0x10000 \<le> (r::nat) \<Longrightarrow> r div 262144 = 0 \<longrightarrow> 16 \<le> r div 4096 mod 64"
proof
  assume a: "0x10000 \<le> r" and b: "r div 262144 = 0"
  from a have "16 \<le> r div 4096" by (rule enc_bounds(4))
  moreover from b have "r div 4096 div 64 = 0" by (simp only: d262144)
  ultimately show "16 \<le> r div 4096 mod 64" by (rule enc_f0)
qed

lemma enc4_high: "(r::nat) \<le> 0x10FFFF \<Longrightarrow> r div 262144 = 4 \<longrightarrow> r div 4096 mod 64 < 16"
proof
  assume a: "r \<le> 0x10FFFF" and b: "r div 262144 = 4"
  from a have "r div 4096 < 272" by (rule enc_bounds(5))
  moreover from b have "r div 4096 div 64 = 4" by (simp only: d262144)
  ultimately show "r div 4096 mod 64 < 16" by (rule enc_f4)
qed

lemma rune_ok_EncodeRune: "rune_ok (EncodeRune r)"
proof -
  consider (a) "r < 0x80" | (b) "0x80 \<le> r" "r < 0x800"
    | (s) "0x800 \<le> r" "(0xD800 \<le> r \<and> r < 0xE000) \<or> 0x10FFFF < r"
    | (c) "0x800 \<le> r" "r < 0xD800 \<or> 0xE000 \<le> r" "r < 0x10000"
    | (d) "0x10000 \<le> r" "r \<le> 0x10FFFF"
    by linarith
  then show ?thesis
  proof cases
    case a
    then show ?thesis by (simp add: EncodeRune_def byte_char_of)
  next
    case b
    then have q: "2 \<le> r div 64" "r div 64 < 32" and m: "r mod 64 < 64" by simp_all
    have "byte (char_of (0xC0 + r div 64)) = 0xC0 + r div 64" using q by (intro byte_char_of) simp
    moreover have "byte (char_of (0x80 + r mod 64)) = 0x80 + r mod 64" using m by (intro byte_char_of) simp
    ultimately have "rune_ok [char_of (0xC0 + r div 64), char_of (0x80 + r mod 64)]"
      using q m by (rule rune_ok2I)
    moreover have "EncodeRune r = [char_of (0xC0 + r div 64), char_of (0x80 + r mod 64)]"
      using b by (simp add: EncodeRune_def)
    ultimately show ?thesis by simp
  next
    case s
    then have "EncodeRune r = RuneError" by (simp add: EncodeRune_def)
    then show ?thesis by (simp add: rune_ok_RuneError)
  next
    case c
    let ?a = "r div 4096" and ?b = "r div 64 mod 64" and ?c = "r mod 64"
    have a: "?a < 16" using c(3) by simp
    have b: "?b < 64" and cc: "?c < 64" by simp_all
    have ba: "byte (char_of (0xE0 + ?a)) = 0xE0 + ?a" using a by (intro byte_char_of) simp
    have bb: "byte (char_of (0x80 + ?b)) = 0x80 + ?b" using b by (intro byte_char_of) simp
    have bc: "byte (char_of (0x80 + ?c)) = 0x80 + ?c" using cc by (intro byte_char_of) simp
    have "rune_ok [char_of (0xE0 + ?a), char_of (0x80 + ?b), char_of (0x80 + ?c)]"
      using ba bb bc a b cc enc3_low[OF c(1)] enc3_high[OF c(2)] by (rule rune_ok3I)
    moreover have "EncodeRune r = [char_of (0xE0 + ?a), char_of (0x80 + ?b), char_of (0x80 + ?c)]"
      using c by (auto simp add: EncodeRune_def)
    ultimately show ?thesis by simp
  next
    case d
    let ?a = "r div 262144" and ?b = "r div 4096 mod 64" and ?c = "r div 64 mod 64" and ?d = "r mod 64"
    have a: "?a \<le> 4" using d(2) by simp
    have b: "?b < 64" and cc: "?c < 64" and dd: "?d < 64" by simp_all
    have ba: "byte (char_of (0xF0 + ?a)) = 0xF0 + ?a" using a by (intro byte_char_of) simp
    have bb: "byte (char_of (0x80 + ?b)) = 0x80 + ?b" using b by (intro byte_char_of) simp
    have bc: "byte (char_of (0x80 + ?c)) = 0x80 + ?c" using cc by (intro byte_char_of) simp
    have bd: "byte (char_of (0x80 + ?d)) = 0x80 + ?d" using dd by (intro byte_char_of) simp
    have "rune_ok [char_of (0xF0 + ?a), char_of (0x80 + ?b), char_of (0x80 + ?c), char_of (0x80 + ?d)]"
      using ba bb bc bd a b cc dd enc4_low[OF d(1)] enc4_high[OF d(2)] by (rule rune_ok4I)
    moreover have "EncodeRune r = [char_of (0xF0 + ?a), char_of (0x80 + ?b), char_of (0x80 + ?c), char_of (0x80 + ?d)]"
      using d by (auto simp add: EncodeRune_def)
    ultimately show ?thesis by simp
  qed
qed


lemma rune_ok_decoded: "rune_ok (decoded s)"
  using rune_len_rune_at[of s "rune_len s"]
  by (auto simp: decoded_def Let_def rune_ok_RuneError)

lemma ValidString_chunk:
  assumes "rune_ok c"
  shows "ValidString (c @ t) = ValidString t"
proof -
  from rune_ok_length[OF assms] obtain b c' where c: "c = b # c'" by (cases c) auto
  have "rune_len (b # c' @ t) = Suc (length c')" using rune_ok_chunk[OF assms, of t] c by simp
  then show ?thesis using c by (simp add: Let_def)
qed


lemma rune_ok_ascii: "byte c < 0x80 \<Longrightarrow> rune_ok [c]"
  by simp

lemma unquote_rune_ok:
  assumes "unquote_rune s = Some (out, n)"
  shows "rune_ok out"
proof (cases s)
  case Nil
  with assms show ?thesis by simp
next
  case (Cons c cs)
  show ?thesis
  proof (cases "c = bslash")
    case True
    with assms Cons obtain e es where cs: "cs = e # es" by (cases cs) auto
    have esc: "rune_ok [dquote]" "rune_ok [bslash]" "rune_ok [CHR ''/'']" "rune_ok [CHR 0x08]"
      "rune_ok [CHR 0x0C]" "rune_ok [CHR 0x0A]" "rune_ok [CHR 0x0D]" "rune_ok [CHR 0x09]"
      by (simp_all add: byte_def)
    from assms Cons True cs show ?thesis
      by (auto simp: esc rune_ok_EncodeRune rune_ok_RuneError Let_def
          simp del: getu4.simps rune_ok.simps split: if_splits option.splits)
  next
    case False
    with assms Cons show ?thesis
      using rune_ok_decoded[of "c # cs"]
      by (auto simp: rune_ok_RuneError rune_ok_ascii decoded_def Let_def simp del: rune_ok.simps split: if_splits)
  qed
qed

lemma unquote_valid: "unquote s = Some (v, rest) \<Longrightarrow> ValidString v"
proof (induction s arbitrary: v rule: unquote.induct)
  case 1
  then show ?case by simp
next
  case (2 c cs)
  show ?case
  proof (cases "c = dquote")
    case True
    with 2(2) show ?thesis by simp
  next
    case False
    with 2(2) obtain out n where st: "unquote_rune (c # cs) = Some (out, n)"
      by (auto split: option.splits)
    with 2(2) False obtain v' where v': "unquote (drop (n - 1) cs) = Some (v', rest)" and v: "v = out @ v'"
      by (auto simp: emit_Some)
    from 2(1)[OF False st refl v'] have "ValidString v'" .
    then show ?thesis using v unquote_rune_ok[OF st] by (simp add: ValidString_chunk del: ValidString.simps)
  qed
qed

lemma valid_coerced_id: "ValidString (coerced s)"
  using unquote_escape[of s "[]"] by (rule unquote_valid)

lemma coerced_idem: "coerced (coerced s) = coerced s"
  by (rule valid_coerced) (rule valid_coerced_id)

definition values_valid :: "(string \<times> string option) list \<Rightarrow> bool" where
  "values_valid ms \<longleftrightarrow> (\<forall>(k, v) \<in> set ms. case v of None \<Rightarrow> True | Some str \<Rightarrow> ValidString str)"

lemma value_lit_valid: "value_lit s = Some (Some str, r) \<Longrightarrow> ValidString str"
  by (auto simp: value_lit_def split: list.splits if_splits option.splits dest: unquote_valid)

lemma members_cases:
  assumes "members s = Some (ms, r)"
  obtains (last) k v x r3 where "value_lit x = Some (v, r3)" "ms = [(k, v)]"
        | (more) k v x r3 ms' r4 where "value_lit x = Some (v, r3)" "ms = (k, v) # ms'"
            "members r4 = Some (ms', r)"
  using assms
  by (subst (asm) members.simps) (auto split: list.splits if_splits option.splits)

lemma members_valid: "members s = Some (ms, r) \<Longrightarrow> values_valid ms"
proof (induction ms arbitrary: s)
  case Nil
  show ?case by (simp add: values_valid_def)
next
  case (Cons m ms)
  from Cons.prems show ?case
  proof (cases rule: members_cases)
    case (last k v x r3)
    then show ?thesis
      by (cases v) (auto simp: values_valid_def dest: value_lit_valid)
  next
    case (more k v x r3 ms' r4)
    then have "values_valid ms" using Cons.IH by simp
    with more show ?thesis
      by (cases v) (auto simp: values_valid_def dest: value_lit_valid)
  qed
qed

lemma document_valid: "document s = Some ms \<Longrightarrow> values_valid ms"
  by (auto simp: document_def values_valid_def[of "[]"] split: list.splits if_splits option.splits
      dest: members_valid)

section \<open>What each operation computes\<close>

text \<open>
  The operations as equations on the world state: \<open>logged l as\<close> is the ledger \<open>l\<close>
  after the accesses \<open>as\<close>, and \<open>verified r v b\<close> is the record that
  \<^verbatim>\<open>VerifyData\<close> writes back for the record \<open>r\<close> it has read.
\<close>

definition logged :: "ledger \<Rightarrow> access list \<Rightarrow> ledger" where
  "logged l as = l\<lparr>accesses := accesses l @ as\<rparr>"

lemma world_logged [simp]: "world (logged l as) = world l"
  by (simp add: logged_def)

lemma accesses_logged [simp]: "accesses (logged l as) = accesses l @ as"
  by (simp add: logged_def)

lemma RegisterDevice_eq:
  "RegisterDevice l d ow loc =
     (if world l d \<noteq> None then (Inl (AlreadyRegistered d), logged l [Read d])
      else if d = [] then (Inl EmptyKey, logged l [Read d])
      else (Inr (), (logged l [Read d, Write d (Device_json \<lparr>ID = d, Owner = ow, Location = loc, Status = ''active''\<rparr>)])
              \<lparr>world := (world l)(d \<mapsto> Device_json \<lparr>ID = d, Owner = ow, Location = loc, Status = ''active''\<rparr>)\<rparr>))"
  by (simp add: RegisterDevice_def DeviceExists_def GetState_def PutState_def json_Marshal_Device_def logged_def Let_def)

lemma SubmitData_eq:
  "SubmitData l d t x =
     (if world l d = None then (Inl (NotRegistered d), logged l [Read d])
      else case CreateCompositeKey ''DataRecord'' [d, t] of
             Inl err \<Rightarrow> (Inl (CreateKeyFailed err), logged l [Read d])
           | Inr k \<Rightarrow>
               if k = [] then (Inl EmptyKey, logged l [Read d])
               else (Inr (), (logged l [Read d, Write k (DataRecord_json \<lparr>DeviceID = d, Timestamp = t, Data = x, Status = ''pending'', VerifierID = []\<rparr>)])
                      \<lparr>world := (world l)(k \<mapsto> DataRecord_json \<lparr>DeviceID = d, Timestamp = t, Data = x, Status = ''pending'', VerifierID = []\<rparr>)\<rparr>))"
  by (simp add: SubmitData_def DeviceExists_def GetState_def PutState_def json_Marshal_DataRecord_def logged_def Let_def split: sum.splits)

definition verified :: "DataRecord \<Rightarrow> string \<Rightarrow> bool \<Rightarrow> DataRecord" where
  "verified r v b = r\<lparr>DataRecord.Status := (if b then ''verified'' else ''rejected''), VerifierID := v\<rparr>"

lemma VerifyData_eq:
  "VerifyData l d t v b =
     (case CreateCompositeKey ''DataRecord'' [d, t] of
        Inl err \<Rightarrow> (Inl (CreateKeyFailed err), l)
      | Inr k \<Rightarrow>
          (case world l k of
             None \<Rightarrow> (Inl (RecordDoesNotExist d t), logged l [Read k])
           | Some js \<Rightarrow>
              (case json_Unmarshal_DataRecord js of
                 Inl err \<Rightarrow> (Inl (UnmarshalRecordFailed err), logged l [Read k])
               | Inr r \<Rightarrow>
                  if k = [] then (Inl EmptyKey, logged l [Read k])
                  else (Inr (), (logged l [Read k, Write k (DataRecord_json (verified r v b))])
                          \<lparr>world := (world l)(k \<mapsto> DataRecord_json (verified r v b))\<rparr>))))"
  by (simp add: VerifyData_def GetState_def PutState_def json_Marshal_DataRecord_def logged_def Let_def verified_def split: sum.splits option.splits)

lemma GetDevice_eq:
  "GetDevice l d =
     (case world l d of
        None \<Rightarrow> (Inl (DeviceDoesNotExist d), logged l [Read d])
      | Some js \<Rightarrow>
          (case json_Unmarshal_Device js of
             Inl err \<Rightarrow> (Inl (UnmarshalDeviceFailed err), logged l [Read d])
           | Inr dev \<Rightarrow> (Inr dev, logged l [Read d])))"
  by (simp add: GetDevice_def GetState_def logged_def split: sum.splits option.splits)

lemma GetDataRecord_eq:
  "GetDataRecord l d t =
     (case CreateCompositeKey ''DataRecord'' [d, t] of
        Inl err \<Rightarrow> (Inl (CreateKeyFailed err), l)
      | Inr k \<Rightarrow>
          (case world l k of
             None \<Rightarrow> (Inl RecordNotFound, logged l [Read k])
           | Some js \<Rightarrow>
              (case json_Unmarshal_DataRecord js of
                 Inl err \<Rightarrow> (Inl (UnmarshalRecordFailed err), logged l [Read k])
               | Inr r \<Rightarrow> (Inr r, logged l [Read k]))))"
  by (simp add: GetDataRecord_def GetState_def logged_def split: sum.splits option.splits)

lemma DeviceExists_eq: "DeviceExists l d = (Inr (world l d \<noteq> None), logged l [Read d])"
  by (simp add: DeviceExists_def GetState_def logged_def)


section \<open>Valid entities and composite keys\<close>

text \<open>An entity is valid when each of its fields is a valid UTF-8 string.\<close>

definition valid_Device :: "Device \<Rightarrow> bool" where
  "valid_Device d \<longleftrightarrow> ValidString (ID d) \<and> ValidString (Owner d) \<and> ValidString (Location d)
     \<and> ValidString (Device.Status d)"

definition valid_DataRecord :: "DataRecord \<Rightarrow> bool" where
  "valid_DataRecord r \<longleftrightarrow> ValidString (DeviceID r) \<and> ValidString (Timestamp r) \<and> ValidString (Data r)
     \<and> ValidString (DataRecord.Status r) \<and> ValidString (VerifierID r)"

lemma coerced_valid_Device: "valid_Device d \<Longrightarrow> coerced_Device d = d"
  by (simp add: valid_Device_def coerced_Device_def valid_coerced)

lemma coerced_valid_DataRecord: "valid_DataRecord r \<Longrightarrow> coerced_DataRecord r = r"
  by (simp add: valid_DataRecord_def coerced_DataRecord_def valid_coerced)

lemma valid_coerced_DataRecord: "valid_DataRecord (coerced_DataRecord r)"
  by (simp add: valid_DataRecord_def coerced_DataRecord_def valid_coerced_id)

lemma store_valid_DataRecord:
  assumes "valid_DataRecord r" and "case v of None \<Rightarrow> True | Some str \<Rightarrow> ValidString str"
  shows "valid_DataRecord (store DataRecord_fields set_DataRecord r (k, v))"
  using assms
  by (auto simp: store_def set_DataRecord_def valid_DataRecord_def split: option.splits)

lemma foldl_store_valid:
  "valid_DataRecord r \<Longrightarrow> values_valid ms
   \<Longrightarrow> valid_DataRecord (foldl (store DataRecord_fields set_DataRecord) r ms)"
proof (induction ms arbitrary: r)
  case Nil
  then show ?case by simp
next
  case (Cons m ms)
  obtain k v where m: "m = (k, v)" by (cases m)
  from Cons.prems(2) m have v: "case v of None \<Rightarrow> True | Some str \<Rightarrow> ValidString str"
    and ms: "values_valid ms" by (auto simp: values_valid_def)
  from store_valid_DataRecord[OF Cons.prems(1) v] have "valid_DataRecord (store DataRecord_fields set_DataRecord r m)"
    using m by simp
  from Cons.IH[OF this ms] show ?case by simp
qed

lemma Unmarshal_DataRecord_valid:
  assumes "json_Unmarshal_DataRecord data = Inr r"
  shows "valid_DataRecord r"
proof -
  from assms obtain ms where d: "document data = Some ms"
    and r: "r = foldl (store DataRecord_fields set_DataRecord) zero_DataRecord ms"
    by (auto simp: json_Unmarshal_DataRecord_def split: option.splits)
  have "valid_DataRecord zero_DataRecord" by (simp add: valid_DataRecord_def zero_DataRecord_def)
  then show ?thesis unfolding r using document_valid[OF d] by (rule foldl_store_valid)
qed

text \<open>
  Composite keys: \<open>attr_ok\<close> holds of the strings that \<^verbatim>\<open>CreateCompositeKey\<close> accepts
  as an attribute, and \<open>dataKey d t\<close> is the key it builds for a data record.
\<close>

definition ascii :: "string \<Rightarrow> bool" where
  "ascii s \<longleftrightarrow> (\<forall>c \<in> set s. byte c < 0x80)"

lemma ascii_valid: "ascii s \<Longrightarrow> ValidString s"
  by (induction s) (simp_all add: ascii_def rune_len_ascii)

lemma ascii_runes: "ascii s \<Longrightarrow> runes s = map (\<lambda>c. [c]) s"
  by (induction s) (simp_all add: ascii_def rune_len_ascii)

definition attr_ok :: "string \<Rightarrow> bool" where
  "attr_ok s \<longleftrightarrow> validateCompositeKeyAttribute s = Inr ()"

lemma attr_ok_ascii: "ascii s \<Longrightarrow> CHR 0x00 \<notin> set s \<Longrightarrow> attr_ok s"
  by (auto simp: attr_ok_def validateCompositeKeyAttribute_def ascii_valid ascii_runes
      minUnicodeRune_def maxUnicodeRune_def)

lemma attr_ok_valid: "attr_ok s \<Longrightarrow> ValidString s"
  by (auto simp: attr_ok_def validateCompositeKeyAttribute_def split: if_splits)

lemma rune_ok_zero: "rune_ok c \<Longrightarrow> CHR 0x00 \<in> set c \<Longrightarrow> c = [CHR 0x00]"
  by (cases c rule: rune_ok.cases) (auto simp: between_def cont_def byte_def split: if_splits)

lemma zero_in_runes: "ValidString s \<Longrightarrow> CHR 0x00 \<in> set s \<Longrightarrow> [CHR 0x00] \<in> set (runes s)"
proof (induction s rule: ValidString.induct)
  case 1
  then show ?case by simp
next
  case (2 b bs)
  let ?n = "rune_len (b # bs)"
  from 2(2) have n0: "?n \<noteq> 0" and v: "ValidString (drop (?n - 1) bs)" by (auto simp: Let_def)
  have ok: "rune_ok (take ?n (b # bs))" using n0 by (intro rune_len_rune_at) auto
  have split: "b # bs = take ?n (b # bs) @ drop (?n - 1) bs"
    using n0 by (cases ?n) auto
  have mx: "max ?n 1 = ?n" using n0 by linarith
  have R: "runes (b # bs) = take ?n (b # bs) # runes (drop (?n - 1) bs)"
    by (simp only: runes.simps Let_def mx)
  from 2(3) split have "CHR 0x00 \<in> set (take ?n (b # bs)) \<or> CHR 0x00 \<in> set (drop (?n - 1) bs)"
    by (metis Un_iff set_append)
  then show ?case
  proof
    assume "CHR 0x00 \<in> set (take ?n (b # bs))"
    with ok have "take ?n (b # bs) = [CHR 0x00]" by (rule rune_ok_zero)
    then show ?thesis by (simp only: R list.set insert_iff simp_thms)
  next
    assume "CHR 0x00 \<in> set (drop (?n - 1) bs)"
    with 2(1)[OF refl] n0 v have "[CHR 0x00] \<in> set (runes (drop (?n - 1) bs))" by simp
    then show ?thesis by (simp only: R list.set insert_iff simp_thms)
  qed
qed

lemma attr_ok_no_zero: "attr_ok s \<Longrightarrow> CHR 0x00 \<notin> set s"
  using zero_in_runes[of s]
  by (auto simp: attr_ok_def validateCompositeKeyAttribute_def minUnicodeRune_def split: if_splits)

definition dataKey :: "string \<Rightarrow> string \<Rightarrow> string" where
  "dataKey d t = CHR 0x00 # ''DataRecord'' @ CHR 0x00 # d @ CHR 0x00 # t @ [CHR 0x00]"

lemma attr_ok_DataRecord: "attr_ok ''DataRecord''"
  by (rule attr_ok_ascii) (simp_all add: ascii_def byte_def)

lemma CreateCompositeKey_eq:
  "CreateCompositeKey ''DataRecord'' [d, t]
     = (if attr_ok d then if attr_ok t then Inr (dataKey d t) else Inl (InvalidAttribute t)
        else Inl (InvalidAttribute d))"
  using attr_ok_DataRecord
  by (auto simp: CreateCompositeKey_def attr_ok_def dataKey_def minUnicodeRune_def
      validateCompositeKeyAttribute_def split: sum.splits if_splits)

lemma split_at_first:
  "x \<notin> set xs \<Longrightarrow> x \<notin> set ys \<Longrightarrow> xs @ x # r = ys @ x # r' \<Longrightarrow> xs = ys \<and> r = r'"
proof (induction xs arbitrary: ys)
  case Nil
  then show ?case by (cases ys) auto
next
  case (Cons a xs)
  then show ?case by (cases ys) auto
qed

lemma dataKey_inj:
  assumes "attr_ok d" "attr_ok d'" "dataKey d t = dataKey d' t'"
  shows "d = d' \<and> t = t'"
proof -
  have z: "CHR 0x00 \<notin> set d" "CHR 0x00 \<notin> set d'" using assms(1,2) by (simp_all add: attr_ok_no_zero)
  from assms(3) have "d @ CHR 0x00 # (t @ [CHR 0x00]) = d' @ CHR 0x00 # (t' @ [CHR 0x00])"
    by (simp add: dataKey_def)
  then have "d = d' \<and> t @ [CHR 0x00] = t' @ [CHR 0x00]"
    using z by (rule split_at_first[rotated 2])
  then show ?thesis by simp
qed

lemma dataKey_head: "dataKey d t \<noteq> [] \<and> hd (dataKey d t) = CHR 0x00"
  by (simp add: dataKey_def)

section \<open>Concrete strings\<close>

lemma coerced_bad: "coerced [CHR 0xFF] = RuneError"
  by (simp add: rune_len_def rune_at_def byte_def Let_def)

lemma RuneError_neq: "RuneError \<noteq> [CHR 0xFF]"
  by (simp add: RuneError_def)

lemma coerced_ascii: "ascii s \<Longrightarrow> coerced s = s"
  by (simp add: ascii_valid valid_coerced)

lemma ascii_lits:
  "ascii ''dev-1''" "ascii ''alice''" "ascii ''lab-A''" "ascii ''active''" "ascii ''pending''"
  "ascii ''verified''" "ascii ''rejected''" "ascii ''t''" "ascii ''temp=21.5''" "ascii ''ver-1''"
  "ascii []" "ascii ''d''" "ascii ''o''" "ascii ''l''"
  by (simp_all add: ascii_def byte_def)

lemma coerced_lits:
  "coerced ''dev-1'' = ''dev-1''" "coerced ''alice'' = ''alice''" "coerced ''lab-A'' = ''lab-A''"
  "coerced ''active'' = ''active''" "coerced ''pending'' = ''pending''"
  "coerced ''verified'' = ''verified''" "coerced ''rejected'' = ''rejected''"
  "coerced ''t'' = ''t''" "coerced ''temp=21.5'' = ''temp=21.5''" "coerced ''ver-1'' = ''ver-1''"
  "coerced ''d'' = ''d''" "coerced ''o'' = ''o''" "coerced ''l'' = ''l''" "coerced [] = []"
  by (rule coerced_ascii, simp add: ascii_def byte_def)+

lemma attr_ok_lits: "attr_ok ''dev-1''" "attr_ok ''t''" "attr_ok ''d''"
  by (rule attr_ok_ascii; simp add: ascii_def byte_def)+

lemma not_attr_ok_zero: "\<not> attr_ok [CHR 0x00]"
  using attr_ok_no_zero[of "[CHR 0x00]"] by auto

section \<open>Serialising and deserialising\<close>

text \<open>Writing an entity with \<^verbatim>\<open>json.Marshal\<close> and reading the bytes back with \<^verbatim>\<open>json.Unmarshal\<close>.\<close>

definition roundtrip_Device :: "Device \<Rightarrow> error + Device" where
  "roundtrip_Device d =
     (case json_Marshal_Device d of Inl err \<Rightarrow> Inl err | Inr js \<Rightarrow> json_Unmarshal_Device js)"

definition roundtrip_DataRecord :: "DataRecord \<Rightarrow> error + DataRecord" where
  "roundtrip_DataRecord r =
     (case json_Marshal_DataRecord r of Inl err \<Rightarrow> Inl err | Inr js \<Rightarrow> json_Unmarshal_DataRecord js)"

text \<open>
  Claim C8 as stated fails: a field that is not valid UTF-8 does not come back.  The owner
  here is the single byte \<^verbatim>\<open>0xFF\<close>; it is written as the escape of U+FFFD and read
  back as the three bytes of U+FFFD.
\<close>

theorem roundtrip_counterexample:
  "roundtrip_Device \<lparr>ID = ''dev-1'', Owner = [CHR 0xFF], Location = ''lab-A'', Status = ''active''\<rparr>
     = Inr \<lparr>ID = ''dev-1'', Owner = [CHR 0xEF, CHR 0xBF, CHR 0xBD], Location = ''lab-A'',
            Status = ''active''\<rparr>
   \<and> roundtrip_Device \<lparr>ID = ''dev-1'', Owner = [CHR 0xFF], Location = ''lab-A'', Status = ''active''\<rparr>
     \<noteq> Inr \<lparr>ID = ''dev-1'', Owner = [CHR 0xFF], Location = ''lab-A'', Status = ''active''\<rparr>"
  by (simp add: roundtrip_Device_def json_Marshal_Device_def Unmarshal_Device_json
      coerced_Device_def coerced_bad coerced_lits RuneError_def del: coerced.simps)

text \<open>
  Claim C8, amended.  A Device and a DataRecord whose fields are valid UTF-8 strings are
  read back equal to what was written, also a DataRecord whose \<open>verifierID\<close> is empty
  and therefore left out of the document (the last conjunct lists the members of the
  document).  In general every field is read back with each byte that belongs to no
  well-formed rune replaced by U+FFFD.
\<close>

theorem roundtrip_valid:
  "(valid_Device d \<longrightarrow> roundtrip_Device d = Inr d)
   \<and> (valid_DataRecord r \<longrightarrow> roundtrip_DataRecord r = Inr r)
   \<and> roundtrip_Device d = Inr (coerced_Device d)
   \<and> roundtrip_DataRecord r = Inr (coerced_DataRecord r)
   \<and> map_option (map fst) (document (DataRecord_json r))
       = Some (if VerifierID r = [] then [''deviceID'', ''timestamp'', ''data'', ''status'']
               else [''deviceID'', ''timestamp'', ''data'', ''status'', ''verifierID''])"
  by (simp add: roundtrip_Device_def roundtrip_DataRecord_def json_Marshal_Device_def
      json_Marshal_DataRecord_def Unmarshal_Device_json Unmarshal_DataRecord_json
      coerced_valid_Device coerced_valid_DataRecord document_DataRecord_json)

theorem roundtrip_valid_witness:
  "valid_Device \<lparr>ID = ''dev-1'', Owner = ''alice'', Location = ''lab-A'', Status = ''active''\<rparr>
   \<and> roundtrip_Device \<lparr>ID = ''dev-1'', Owner = ''alice'', Location = ''lab-A'', Status = ''active''\<rparr>
       = Inr \<lparr>ID = ''dev-1'', Owner = ''alice'', Location = ''lab-A'', Status = ''active''\<rparr>
   \<and> valid_DataRecord \<lparr>DeviceID = ''dev-1'', Timestamp = ''t'', Data = ''temp=21.5'',
                        Status = ''pending'', VerifierID = []\<rparr>
   \<and> roundtrip_DataRecord \<lparr>DeviceID = ''dev-1'', Timestamp = ''t'', Data = ''temp=21.5'',
                        Status = ''pending'', VerifierID = []\<rparr>
       = Inr \<lparr>DeviceID = ''dev-1'', Timestamp = ''t'', Data = ''temp=21.5'',
                        Status = ''pending'', VerifierID = []\<rparr>"
proof -
  have d: "valid_Device \<lparr>ID = ''dev-1'', Owner = ''alice'', Location = ''lab-A'', Status = ''active''\<rparr>"
    by (simp add: valid_Device_def ascii_valid ascii_lits del: ValidString.simps)
  have r: "valid_DataRecord \<lparr>DeviceID = ''dev-1'', Timestamp = ''t'', Data = ''temp=21.5'',
                        Status = ''pending'', VerifierID = []\<rparr>"
    by (simp add: valid_DataRecord_def ascii_valid ascii_lits del: ValidString.simps)
  from d r roundtrip_valid[of "\<lparr>ID = ''dev-1'', Owner = ''alice'', Location = ''lab-A'', Status = ''active''\<rparr>"
      "\<lparr>DeviceID = ''dev-1'', Timestamp = ''t'', Data = ''temp=21.5'', Status = ''pending'', VerifierID = []\<rparr>"]
  show ?thesis by blast
qed

section \<open>Registering and reading a device\<close>

text \<open>
  Claim C1 as stated fails for an owner that is not valid UTF-8: registration succeeds, and
  the device read back has another owner than the one given.
\<close>

theorem register_then_get_counterexample:
  "fst (RegisterDevice genesis ''dev-1'' [CHR 0xFF] ''lab-A'') = Inr ()
   \<and> fst (GetDevice (snd (RegisterDevice genesis ''dev-1'' [CHR 0xFF] ''lab-A'')) ''dev-1'')
       = Inr \<lparr>ID = ''dev-1'', Owner = [CHR 0xEF, CHR 0xBF, CHR 0xBD], Location = ''lab-A'',
              Status = ''active''\<rparr>
   \<and> fst (GetDevice (snd (RegisterDevice genesis ''dev-1'' [CHR 0xFF] ''lab-A'')) ''dev-1'')
       \<noteq> Inr \<lparr>ID = ''dev-1'', Owner = [CHR 0xFF], Location = ''lab-A'', Status = ''active''\<rparr>"
  by (simp add: RegisterDevice_eq genesis_def GetDevice_eq Unmarshal_Device_json
      coerced_Device_def coerced_bad coerced_lits RuneError_def del: coerced.simps)

text \<open>
  Claim C1, amended.  If \<^verbatim>\<open>RegisterDevice\<close> succeeds, \<^verbatim>\<open>GetDevice\<close> on the resulting
  ledger succeeds and returns a Device with status \<open>active\<close> whose id, owner and location
  are the inputs as JSON preserves them; they equal the inputs whenever these are valid
  UTF-8 strings.
\<close>

theorem register_then_get:
  assumes "RegisterDevice l deviceID owner location = (Inr (), l1)"
  shows "fst (GetDevice l1 deviceID)
           = Inr \<lparr>ID = coerced deviceID, Owner = coerced owner, Location = coerced location,
                  Status = ''active''\<rparr>
    \<and> (ValidString deviceID \<and> ValidString owner \<and> ValidString location
        \<longrightarrow> fst (GetDevice l1 deviceID)
           = Inr \<lparr>ID = deviceID, Owner = owner, Location = location, Status = ''active''\<rparr>)"
proof -
  from assms have "world l1 deviceID
      = Some (Device_json \<lparr>ID = deviceID, Owner = owner, Location = location, Status = ''active''\<rparr>)"
    by (auto simp: RegisterDevice_eq split: if_splits)
  then show ?thesis
    by (simp add: GetDevice_eq Unmarshal_Device_json coerced_Device_def coerced_lits
        valid_coerced del: coerced.simps ValidString.simps)
qed

theorem register_then_get_witness:
  "fst (RegisterDevice genesis ''dev-1'' ''alice'' ''lab-A'') = Inr ()
   \<and> ValidString ''dev-1'' \<and> ValidString ''alice'' \<and> ValidString ''lab-A''
   \<and> fst (GetDevice (snd (RegisterDevice genesis ''dev-1'' ''alice'' ''lab-A'')) ''dev-1'')
       = Inr \<lparr>ID = ''dev-1'', Owner = ''alice'', Location = ''lab-A'', Status = ''active''\<rparr>"
proof -
  have a: "fst (RegisterDevice genesis ''dev-1'' ''alice'' ''lab-A'') = Inr ()"
    by (simp add: RegisterDevice_eq genesis_def)
  then have h: "RegisterDevice genesis ''dev-1'' ''alice'' ''lab-A''
             = (Inr (), snd (RegisterDevice genesis ''dev-1'' ''alice'' ''lab-A''))"
    by (metis prod.collapse)
  have v: "ValidString ''dev-1''" "ValidString ''alice''" "ValidString ''lab-A''"
    by (rule ascii_valid, rule ascii_lits)+
  from register_then_get[OF h] v a show ?thesis by blast
qed

section \<open>Reading and verifying data records\<close>

lemma fst_GetDataRecord:
  "fst (GetDataRecord l d t) =
     (if attr_ok d then if attr_ok t then
        (case world l (dataKey d t) of
           None \<Rightarrow> Inl RecordNotFound
         | Some js \<Rightarrow>
             (case json_Unmarshal_DataRecord js of
                Inl err \<Rightarrow> Inl (UnmarshalRecordFailed err)
              | Inr r \<Rightarrow> Inr r))
      else Inl (CreateKeyFailed (InvalidAttribute t))
      else Inl (CreateKeyFailed (InvalidAttribute d)))"
  by (simp add: GetDataRecord_eq CreateCompositeKey_eq split: option.splits sum.splits)

lemma CreateCompositeKey_Inr:
  "CreateCompositeKey ''DataRecord'' [d, t] = Inr key \<longleftrightarrow> attr_ok d \<and> attr_ok t \<and> key = dataKey d t"
  by (auto simp: CreateCompositeKey_eq)

lemma dataKey_nonempty: "dataKey d t \<noteq> []"
  by (simp add: dataKey_def)

lemma GetDataRecord_Inr:
  "fst (GetDataRecord l d t) = Inr r \<longleftrightarrow>
     attr_ok d \<and> attr_ok t \<and> (\<exists>js. world l (dataKey d t) = Some js \<and> json_Unmarshal_DataRecord js = Inr r)"
  by (auto simp: fst_GetDataRecord split: option.splits sum.splits)

lemma VerifyData_ok:
  assumes "attr_ok d" "attr_ok t" "world l (dataKey d t) = Some js" "json_Unmarshal_DataRecord js = Inr r"
  shows "VerifyData l d t v b
     = (Inr (), (logged l [Read (dataKey d t), Write (dataKey d t) (DataRecord_json (verified r v b))])
                  \<lparr>world := (world l)(dataKey d t \<mapsto> DataRecord_json (verified r v b))\<rparr>)"
  using assms by (simp add: VerifyData_eq CreateCompositeKey_eq dataKey_nonempty)

lemma VerifyData_Inr:
  assumes "VerifyData l d t v b = (Inr (), l1)"
  shows "attr_ok d \<and> attr_ok t \<and> (\<exists>js r. world l (dataKey d t) = Some js \<and> json_Unmarshal_DataRecord js = Inr r
     \<and> l1 = (logged l [Read (dataKey d t), Write (dataKey d t) (DataRecord_json (verified r v b))])
                  \<lparr>world := (world l)(dataKey d t \<mapsto> DataRecord_json (verified r v b))\<rparr>)"
  using assms
  by (auto simp add: VerifyData_eq CreateCompositeKey_eq dataKey_nonempty
      split: if_splits option.splits sum.splits)

section \<open>Atomicity of the writing operations\<close>

text \<open>
  \<open>new_accesses l l'\<close> are the accesses an operation has added to the log.  An
  outcome is \<open>atomic\<close> when the log has only grown, at most one of the new accesses is a
  write, no access follows a write, and an operation that returns an error has written
  nothing and leaves the world state as it found it.
\<close>

fun isWrite :: "access \<Rightarrow> bool" where
  "isWrite (Write _ _) = True"
| "isWrite (Read _) = False"

definition new_accesses :: "ledger \<Rightarrow> ledger \<Rightarrow> access list" where
  "new_accesses l l' = drop (length (accesses l)) (accesses l')"





section \<open>Keys are never removed\<close>

lemma world_invoke_mono: "world l k \<noteq> None \<Longrightarrow> world (invoke l c) k \<noteq> None"
  by (cases c) (simp_all add: RegisterDevice_eq SubmitData_eq VerifyData_eq GetDevice_eq GetDataRecord_eq DeviceExists_eq
      split: sum.splits option.splits)

lemma world_run_mono: "world l k \<noteq> None \<Longrightarrow> world (run l cs) k \<noteq> None"
proof (induction cs arbitrary: l)
  case Nil
  then show ?case by (simp add: run_def)
next
  case (Cons c cs)
  from Cons.prems have "world (invoke l c) k \<noteq> None" by (rule world_invoke_mono)
  then have "world (run (invoke l c) cs) k \<noteq> None" by (rule Cons.IH)
  then show ?case by (simp add: run_def)
qed

section \<open>Submitting and verifying data\<close>

text \<open>
  Claim C5, amended.  Whenever \<^verbatim>\<open>GetDataRecord\<close> can read a record under the composite
  key of \<open>(deviceID, timestamp)\<close>, whatever the status of that record,
  \<^verbatim>\<open>VerifyData\<close> succeeds, and the record stored afterwards has status \<open>verified\<close> if
  \<open>isValid\<close> and \<open>rejected\<close> otherwise, and as verifier the given identifier as JSON
  preserves it: the identifier itself whenever it is a valid UTF-8 string.
\<close>

theorem verify_sets_status:
  assumes "fst (GetDataRecord l deviceID timestamp) = Inr r"
  shows "fst (VerifyData l deviceID timestamp verifierID isValid) = Inr ()
    \<and> (\<exists>r'. fst (GetDataRecord (snd (VerifyData l deviceID timestamp verifierID isValid))
                  deviceID timestamp) = Inr r'
          \<and> DataRecord.Status r' = (if isValid then ''verified'' else ''rejected'')
          \<and> VerifierID r' = coerced verifierID
          \<and> (ValidString verifierID \<longrightarrow> VerifierID r' = verifierID))"
proof -
  from assms obtain js where ok: "attr_ok deviceID" "attr_ok timestamp"
    and js: "world l (dataKey deviceID timestamp) = Some js" "json_Unmarshal_DataRecord js = Inr r"
    by (auto simp: GetDataRecord_Inr)
  note v = VerifyData_ok[OF ok js, of verifierID isValid]
  show ?thesis
    by (simp add: v fst_GetDataRecord ok Unmarshal_DataRecord_json coerced_DataRecord_def
        verified_def coerced_lits valid_coerced del: coerced.simps(2) ValidString.simps)
qed

text \<open>
  Claim C10.  A successful \<^verbatim>\<open>VerifyData\<close> found a record \<open>r\<close> under the composite key
  \<open>key\<close> of \<open>(deviceID, timestamp)\<close>; the record \<open>r'\<close> stored afterwards has the
  \<open>deviceID\<close>, \<open>timestamp\<close> and \<open>data\<close> of \<open>r\<close>, every other key of the world state
  holds what it held, and the one write of the operation is to \<open>key\<close>.
\<close>

theorem verify_frame:
  assumes "VerifyData l deviceID timestamp verifierID isValid = (Inr (), l1)"
  shows "\<exists>key r r' js.
      CreateCompositeKey ''DataRecord'' [deviceID, timestamp] = Inr key
      \<and> fst (GetDataRecord l deviceID timestamp) = Inr r
      \<and> fst (GetDataRecord l1 deviceID timestamp) = Inr r'
      \<and> DeviceID r' = DeviceID r \<and> Timestamp r' = Timestamp r \<and> Data r' = Data r
      \<and> (\<forall>k. k \<noteq> key \<longrightarrow> world l1 k = world l k)
      \<and> filter isWrite (new_accesses l l1) = [Write key js]"
proof -
  from VerifyData_Inr[OF assms] obtain js r where ok: "attr_ok deviceID" "attr_ok timestamp"
    and js: "world l (dataKey deviceID timestamp) = Some js" "json_Unmarshal_DataRecord js = Inr r"
    and l1: "l1 = (logged l [Read (dataKey deviceID timestamp),
                     Write (dataKey deviceID timestamp) (DataRecord_json (verified r verifierID isValid))])
                  \<lparr>world := (world l)(dataKey deviceID timestamp \<mapsto> DataRecord_json (verified r verifierID isValid))\<rparr>"
    by blast
  from Unmarshal_DataRecord_valid[OF js(2)] have val: "valid_DataRecord r" .
  have key: "CreateCompositeKey ''DataRecord'' [deviceID, timestamp] = Inr (dataKey deviceID timestamp)"
    using ok by (simp add: CreateCompositeKey_eq)
  have before: "fst (GetDataRecord l deviceID timestamp) = Inr r"
    using ok js by (simp add: GetDataRecord_Inr)
  have after: "fst (GetDataRecord l1 deviceID timestamp)
      = Inr (coerced_DataRecord (verified r verifierID isValid))"
    by (simp add: l1 fst_GetDataRecord ok Unmarshal_DataRecord_json)
  have same: "DeviceID (coerced_DataRecord (verified r verifierID isValid)) = DeviceID r"
    "Timestamp (coerced_DataRecord (verified r verifierID isValid)) = Timestamp r"
    "Data (coerced_DataRecord (verified r verifierID isValid)) = Data r"
    using val by (simp_all add: coerced_DataRecord_def verified_def valid_DataRecord_def valid_coerced
        del: coerced.simps(2) ValidString.simps)
  have frame: "\<forall>k. k \<noteq> dataKey deviceID timestamp \<longrightarrow> world l1 k = world l k"
    by (simp add: l1)
  have wr: "filter isWrite (new_accesses l l1)
      = [Write (dataKey deviceID timestamp) (DataRecord_json (verified r verifierID isValid))]"
    by (simp add: l1 new_accesses_def)
  from key before after same frame wr show ?thesis by blast
qed

text \<open>
  Claim C4, amended.  If a device is registered under \<open>deviceID\<close>, the composite key of
  \<open>(deviceID, timestamp)\<close> can be built (both are valid UTF-8 without U+0000 and
  U+10FFFF) and \<open>data\<close> is valid UTF-8, then \<^verbatim>\<open>SubmitData\<close> succeeds and
  \<^verbatim>\<open>GetDataRecord\<close> on the resulting ledger returns the record with these three values,
  status \<open>pending\<close> and an empty \<open>verifierID\<close>.
\<close>

theorem submit_then_get:
  assumes "fst (DeviceExists l deviceID) = Inr True"
    and "CreateCompositeKey ''DataRecord'' [deviceID, timestamp] = Inr key"
    and "ValidString data"
  shows "fst (SubmitData l deviceID timestamp data) = Inr ()
    \<and> fst (GetDataRecord (snd (SubmitData l deviceID timestamp data)) deviceID timestamp)
        = Inr \<lparr>DeviceID = deviceID, Timestamp = timestamp, Data = data, Status = ''pending'',
               VerifierID = []\<rparr>"
proof -
  from assms(2) have ok: "attr_ok deviceID" "attr_ok timestamp" and key: "key = dataKey deviceID timestamp"
    by (simp_all add: CreateCompositeKey_Inr)
  from assms(1) have reg: "world l deviceID \<noteq> None" by (simp add: DeviceExists_eq)
  have v: "coerced deviceID = deviceID" "coerced timestamp = timestamp" "coerced data = data"
    using ok assms(3) by (simp_all add: attr_ok_valid valid_coerced)
  show ?thesis using reg
    by (simp add: SubmitData_eq assms(2) key dataKey_nonempty fst_GetDataRecord ok
        Unmarshal_DataRecord_json coerced_DataRecord_def v coerced_lits del: coerced.simps(2))
qed

text \<open>
  Claim C3, amended.  If no device is registered under \<open>deviceID\<close>, \<^verbatim>\<open>SubmitData\<close>
  fails with \<open>NotRegistered\<close> (the specification's \<open>DeviceNotRegistered\<close>) and leaves
  the world state as it is, so \<^verbatim>\<open>GetDataRecord\<close> answers as it did before the call:
  with \<open>RecordNotFound\<close> (\<open>NotFound\<close>) when the composite key can be built and nothing
  was stored under it.
\<close>

theorem submit_unregistered:
  assumes "fst (DeviceExists l deviceID) = Inr False"
  shows "fst (SubmitData l deviceID timestamp data) = Inl (NotRegistered deviceID)
    \<and> kind_of (NotRegistered deviceID) = DeviceNotRegistered
    \<and> world (snd (SubmitData l deviceID timestamp data)) = world l
    \<and> fst (GetDataRecord (snd (SubmitData l deviceID timestamp data)) deviceID timestamp)
        = fst (GetDataRecord l deviceID timestamp)
    \<and> (\<forall>key. CreateCompositeKey ''DataRecord'' [deviceID, timestamp] = Inr key \<and> world l key = None
          \<longrightarrow> fst (GetDataRecord (snd (SubmitData l deviceID timestamp data)) deviceID timestamp)
              = Inl RecordNotFound \<and> kind_of RecordNotFound = NotFound)"
proof -
  from assms have "world l deviceID = None" by (simp add: DeviceExists_eq)
  then show ?thesis
    by (auto simp add: SubmitData_eq fst_GetDataRecord CreateCompositeKey_Inr)
qed


text \<open>
  Three ledgers to run the operations on: \<open>registered\<close> after the registration of
  \<open>dev-1\<close>, \<open>submitted\<close> after a submission of that device, and \<open>orphan\<close>, which
  holds a data record and no device.
\<close>

definition registered :: ledger where
  "registered = snd (RegisterDevice genesis ''dev-1'' ''alice'' ''lab-A'')"

definition submitted :: ledger where
  "submitted = snd (SubmitData registered ''dev-1'' ''t'' ''temp=21.5'')"

definition orphan :: ledger where
  "orphan = \<lparr>world = [dataKey ''dev-1'' ''t'' \<mapsto>
               DataRecord_json \<lparr>DeviceID = ''dev-1'', Timestamp = ''t'', Data = ''temp=21.5'',
                                 Status = ''pending'', VerifierID = []\<rparr>],
             accesses = []\<rparr>"

lemma dataKey_lits: "dataKey ''dev-1'' ''t'' \<noteq> ''dev-1''" "''dev-1'' \<noteq> dataKey ''dev-1'' ''t''"
  by (simp_all add: dataKey_def)

lemma world_registered:
  "world registered = [''dev-1'' \<mapsto> Device_json \<lparr>ID = ''dev-1'', Owner = ''alice'',
                         Location = ''lab-A'', Status = ''active''\<rparr>]"
  by (simp add: registered_def RegisterDevice_eq genesis_def)

lemma world_submitted:
  "world submitted = (world registered)(dataKey ''dev-1'' ''t'' \<mapsto>
      DataRecord_json \<lparr>DeviceID = ''dev-1'', Timestamp = ''t'', Data = ''temp=21.5'',
                        Status = ''pending'', VerifierID = []\<rparr>)"
  by (simp add: submitted_def SubmitData_eq world_registered CreateCompositeKey_eq attr_ok_lits
      dataKey_nonempty)

lemma record_submitted:
  "fst (GetDataRecord submitted ''dev-1'' ''t'')
     = Inr \<lparr>DeviceID = ''dev-1'', Timestamp = ''t'', Data = ''temp=21.5'', Status = ''pending'',
            VerifierID = []\<rparr>"
  by (simp add: fst_GetDataRecord attr_ok_lits world_submitted Unmarshal_DataRecord_json
      coerced_DataRecord_def coerced_lits del: coerced.simps(2))

lemma verify_submitted: "fst (VerifyData submitted ''dev-1'' ''t'' v b) = Inr ()"
proof -
  from record_submitted obtain js
    where "world submitted (dataKey ''dev-1'' ''t'') = Some js"
      and "json_Unmarshal_DataRecord js
             = Inr \<lparr>DeviceID = ''dev-1'', Timestamp = ''t'', Data = ''temp=21.5'',
                    Status = ''pending'', VerifierID = []\<rparr>"
    by (auto simp: GetDataRecord_Inr)
  from VerifyData_ok[OF attr_ok_lits(1) attr_ok_lits(2) this] show ?thesis by simp
qed

text \<open>
  Claim C5 as stated fails for a verifier identifier that is not valid UTF-8: the stored
  \<open>verifierID\<close> is U+FFFD, not the byte \<^verbatim>\<open>0xFF\<close> that was supplied.
\<close>

theorem verify_sets_status_counterexample:
  "fst (GetDataRecord submitted ''dev-1'' ''t'')
     = Inr \<lparr>DeviceID = ''dev-1'', Timestamp = ''t'', Data = ''temp=21.5'', Status = ''pending'',
            VerifierID = []\<rparr>
   \<and> fst (VerifyData submitted ''dev-1'' ''t'' [CHR 0xFF] True) = Inr ()
   \<and> fst (GetDataRecord (snd (VerifyData submitted ''dev-1'' ''t'' [CHR 0xFF] True)) ''dev-1'' ''t'')
     = Inr \<lparr>DeviceID = ''dev-1'', Timestamp = ''t'', Data = ''temp=21.5'', Status = ''verified'',
            VerifierID = [CHR 0xEF, CHR 0xBF, CHR 0xBD]\<rparr>"
proof -
  have js: "world submitted (dataKey ''dev-1'' ''t'')
      = Some (DataRecord_json \<lparr>DeviceID = ''dev-1'', Timestamp = ''t'', Data = ''temp=21.5'',
                                Status = ''pending'', VerifierID = []\<rparr>)"
    by (simp add: world_submitted)
  have un: "json_Unmarshal_DataRecord (DataRecord_json \<lparr>DeviceID = ''dev-1'', Timestamp = ''t'',
        Data = ''temp=21.5'', Status = ''pending'', VerifierID = []\<rparr>)
      = Inr \<lparr>DeviceID = ''dev-1'', Timestamp = ''t'', Data = ''temp=21.5'', Status = ''pending'',
            VerifierID = []\<rparr>"
    by (simp add: Unmarshal_DataRecord_json coerced_DataRecord_def coerced_lits del: coerced.simps(2))
  note v = VerifyData_ok[OF attr_ok_lits(1) attr_ok_lits(2) js un, of "[CHR 0xFF]" True]
  show ?thesis
    by (simp add: js v fst_GetDataRecord attr_ok_lits Unmarshal_DataRecord_json
        coerced_DataRecord_def verified_def coerced_lits coerced_bad RuneError_def
        del: coerced.simps(2))
qed

theorem verify_sets_status_witness:
  "fst (GetDataRecord submitted ''dev-1'' ''t'')
     = Inr \<lparr>DeviceID = ''dev-1'', Timestamp = ''t'', Data = ''temp=21.5'', Status = ''pending'',
            VerifierID = []\<rparr>
   \<and> fst (VerifyData submitted ''dev-1'' ''t'' ''ver-1'' True) = Inr ()
   \<and> (\<exists>r'. fst (GetDataRecord (snd (VerifyData submitted ''dev-1'' ''t'' ''ver-1'' True))
                  ''dev-1'' ''t'') = Inr r'
          \<and> DataRecord.Status r' = ''verified'' \<and> VerifierID r' = ''ver-1'')"
proof -
  from verify_sets_status[OF record_submitted, of "''ver-1''" True]
  have "fst (VerifyData submitted ''dev-1'' ''t'' ''ver-1'' True) = Inr ()
   \<and> (\<exists>r'. fst (GetDataRecord (snd (VerifyData submitted ''dev-1'' ''t'' ''ver-1'' True))
                  ''dev-1'' ''t'') = Inr r'
          \<and> DataRecord.Status r' = ''verified'' \<and> VerifierID r' = ''ver-1'')"
    by (auto simp add: coerced_lits simp del: coerced.simps(2) ValidString.simps)
  with record_submitted show ?thesis by blast
qed

theorem verify_frame_witness:
  "fst (VerifyData submitted ''dev-1'' ''t'' ''ver-1'' True) = Inr ()
   \<and> (\<exists>r r'. fst (GetDataRecord submitted ''dev-1'' ''t'') = Inr r
        \<and> fst (GetDataRecord (snd (VerifyData submitted ''dev-1'' ''t'' ''ver-1'' True)) ''dev-1'' ''t'')
            = Inr r'
        \<and> DeviceID r' = DeviceID r \<and> Timestamp r' = Timestamp r \<and> Data r' = Data r)"
proof -
  have a: "fst (VerifyData submitted ''dev-1'' ''t'' ''ver-1'' True) = Inr ()"
    by (rule verify_submitted)
  then have h: "VerifyData submitted ''dev-1'' ''t'' ''ver-1'' True
      = (Inr (), snd (VerifyData submitted ''dev-1'' ''t'' ''ver-1'' True))"
    by (metis prod.collapse)
  from verify_frame[OF h] a show ?thesis by blast
qed

text \<open>
  Claim C4 as stated fails twice on a ledger where \<open>dev-1\<close> is registered: with a
  timestamp that holds U+0000 no composite key can be built and \<^verbatim>\<open>SubmitData\<close> fails,
  and data that is not valid UTF-8 is stored as U+FFFD.
\<close>

theorem submit_then_get_counterexample:
  "fst (DeviceExists registered ''dev-1'') = Inr True
   \<and> fst (SubmitData registered ''dev-1'' [CHR 0x00] ''temp=21.5'')
       = Inl (CreateKeyFailed (InvalidAttribute [CHR 0x00]))
   \<and> fst (SubmitData registered ''dev-1'' ''t'' [CHR 0xFF]) = Inr ()
   \<and> fst (GetDataRecord (snd (SubmitData registered ''dev-1'' ''t'' [CHR 0xFF])) ''dev-1'' ''t'')
       = Inr \<lparr>DeviceID = ''dev-1'', Timestamp = ''t'', Data = [CHR 0xEF, CHR 0xBF, CHR 0xBD],
              Status = ''pending'', VerifierID = []\<rparr>"
  by (simp add: DeviceExists_eq SubmitData_eq world_registered CreateCompositeKey_eq attr_ok_lits
      not_attr_ok_zero dataKey_nonempty fst_GetDataRecord Unmarshal_DataRecord_json
      coerced_DataRecord_def coerced_lits coerced_bad RuneError_def del: coerced.simps(2))

theorem submit_then_get_witness:
  "fst (DeviceExists registered ''dev-1'') = Inr True
   \<and> CreateCompositeKey ''DataRecord'' [''dev-1'', ''t''] = Inr (dataKey ''dev-1'' ''t'')
   \<and> ValidString ''temp=21.5''
   \<and> fst (SubmitData registered ''dev-1'' ''t'' ''temp=21.5'') = Inr ()
   \<and> fst (GetDataRecord (snd (SubmitData registered ''dev-1'' ''t'' ''temp=21.5'')) ''dev-1'' ''t'')
        = Inr \<lparr>DeviceID = ''dev-1'', Timestamp = ''t'', Data = ''temp=21.5'', Status = ''pending'',
               VerifierID = []\<rparr>"
proof -
  have a: "fst (DeviceExists registered ''dev-1'') = Inr True"
    by (simp add: DeviceExists_eq world_registered)
  have b: "CreateCompositeKey ''DataRecord'' [''dev-1'', ''t''] = Inr (dataKey ''dev-1'' ''t'')"
    by (simp add: CreateCompositeKey_eq attr_ok_lits)
  have c: "ValidString ''temp=21.5''" by (rule ascii_valid, rule ascii_lits)
  from submit_then_get[OF a b c] a b c show ?thesis by blast
qed

text \<open>
  Claim C3 as stated fails on a ledger that already holds a record under the composite
  key while the device is not registered: \<^verbatim>\<open>SubmitData\<close> is refused, and
  \<^verbatim>\<open>GetDataRecord\<close> returns that record, not \<open>NotFound\<close>.  It also fails on the empty
  ledger for a timestamp that holds U+0000: \<^verbatim>\<open>GetDataRecord\<close> cannot build the composite
  key and reports that.
\<close>

theorem submit_unregistered_counterexample:
  "fst (DeviceExists orphan ''dev-1'') = Inr False
   \<and> fst (SubmitData orphan ''dev-1'' ''t'' ''temp=21.5'') = Inl (NotRegistered ''dev-1'')
   \<and> fst (GetDataRecord (snd (SubmitData orphan ''dev-1'' ''t'' ''temp=21.5'')) ''dev-1'' ''t'')
       = Inr \<lparr>DeviceID = ''dev-1'', Timestamp = ''t'', Data = ''temp=21.5'', Status = ''pending'',
              VerifierID = []\<rparr>
   \<and> fst (DeviceExists genesis ''dev-1'') = Inr False
   \<and> fst (SubmitData genesis ''dev-1'' [CHR 0x00] ''temp=21.5'') = Inl (NotRegistered ''dev-1'')
   \<and> fst (GetDataRecord (snd (SubmitData genesis ''dev-1'' [CHR 0x00] ''temp=21.5''))
             ''dev-1'' [CHR 0x00])
       = Inl (CreateKeyFailed (InvalidAttribute [CHR 0x00]))
   \<and> kind_of (CreateKeyFailed (InvalidAttribute [CHR 0x00])) = LedgerIOError"
proof -
  have a: "fst (DeviceExists orphan ''dev-1'') = Inr False
   \<and> fst (SubmitData orphan ''dev-1'' ''t'' ''temp=21.5'') = Inl (NotRegistered ''dev-1'')
   \<and> fst (GetDataRecord (snd (SubmitData orphan ''dev-1'' ''t'' ''temp=21.5'')) ''dev-1'' ''t'')
       = Inr \<lparr>DeviceID = ''dev-1'', Timestamp = ''t'', Data = ''temp=21.5'', Status = ''pending'',
              VerifierID = []\<rparr>"
    by (simp add: orphan_def DeviceExists_eq SubmitData_eq dataKey_lits fst_GetDataRecord attr_ok_lits
        Unmarshal_DataRecord_json coerced_DataRecord_def coerced_lits del: coerced.simps(2))
  have b: "fst (DeviceExists genesis ''dev-1'') = Inr False
   \<and> fst (SubmitData genesis ''dev-1'' [CHR 0x00] ''temp=21.5'') = Inl (NotRegistered ''dev-1'')
   \<and> fst (GetDataRecord (snd (SubmitData genesis ''dev-1'' [CHR 0x00] ''temp=21.5''))
             ''dev-1'' [CHR 0x00])
       = Inl (CreateKeyFailed (InvalidAttribute [CHR 0x00]))"
    by (simp add: genesis_def DeviceExists_eq SubmitData_eq fst_GetDataRecord attr_ok_lits
        not_attr_ok_zero)
  from a b show ?thesis by simp
qed

theorem submit_unregistered_witness:
  "fst (DeviceExists genesis ''dev-1'') = Inr False
   \<and> fst (SubmitData genesis ''dev-1'' ''t'' ''temp=21.5'') = Inl (NotRegistered ''dev-1'')
   \<and> world (snd (SubmitData genesis ''dev-1'' ''t'' ''temp=21.5'')) = world genesis
   \<and> fst (GetDataRecord (snd (SubmitData genesis ''dev-1'' ''t'' ''temp=21.5'')) ''dev-1'' ''t'')
       = Inl RecordNotFound"
proof -
  have a: "fst (DeviceExists genesis ''dev-1'') = Inr False"
    by (simp add: DeviceExists_eq genesis_def)
  have b: "CreateCompositeKey ''DataRecord'' [''dev-1'', ''t''] = Inr (dataKey ''dev-1'' ''t'')"
    by (simp add: CreateCompositeKey_eq attr_ok_lits)
  have c: "world genesis (dataKey ''dev-1'' ''t'') = None" by (simp add: genesis_def)
  from submit_unregistered[OF a, of "''t''" "''temp=21.5''"] a b c show ?thesis by blast
qed

section \<open>The status of a data record over time\<close>

text \<open>
  A status is \<open>terminal\<close> when it is \<open>verified\<close> or \<open>rejected\<close>.  A call
  \<open>resubmits\<close> the record of \<open>(deviceID, timestamp)\<close> when it is a \<^verbatim>\<open>SubmitData\<close> for
  that device and timestamp.
\<close>

definition terminal :: "string \<Rightarrow> bool" where
  "terminal status \<longleftrightarrow> status = ''verified'' \<or> status = ''rejected''"

fun resubmits :: "string \<Rightarrow> string \<Rightarrow> call \<Rightarrow> bool" where
  "resubmits deviceID timestamp (SubmitDataCall d t _) \<longleftrightarrow> d = deviceID \<and> t = timestamp"
| "resubmits _ _ _ \<longleftrightarrow> False"

lemma world_same_record:
  "world l' = world l \<Longrightarrow> fst (GetDataRecord l' d t) = fst (GetDataRecord l d t)"
  by (simp add: fst_GetDataRecord)

lemma terminal_verified: "terminal (DataRecord.Status (coerced_DataRecord (verified r v b)))"
  by (simp add: terminal_def coerced_DataRecord_def verified_def coerced_lits del: coerced.simps(2))

lemma world_RegisterDevice:
  "world (snd (RegisterDevice l d ow loc))
     = (if world l d = None \<and> d \<noteq> []
        then (world l)(d \<mapsto> Device_json \<lparr>ID = d, Owner = ow, Location = loc, Status = ''active''\<rparr>)
        else world l)"
  by (simp add: RegisterDevice_eq)

lemma world_SubmitData:
  "world (snd (SubmitData l d t x))
     = (if world l d \<noteq> None \<and> attr_ok d \<and> attr_ok t
        then (world l)(dataKey d t \<mapsto> DataRecord_json \<lparr>DeviceID = d, Timestamp = t, Data = x,
                 Status = ''pending'', VerifierID = []\<rparr>)
        else world l)"
  by (auto simp add: SubmitData_eq CreateCompositeKey_eq dataKey_nonempty)

lemma world_readers:
  "world (snd (DeviceExists l d)) = world l"
  "world (snd (GetDevice l d)) = world l"
  "world (snd (GetDataRecord l d t)) = world l"
  by (simp_all add: DeviceExists_eq GetDevice_eq GetDataRecord_eq split: option.splits sum.splits)

lemma world_VerifyData:
  "world (snd (VerifyData l d t v b))
     = (if attr_ok d \<and> attr_ok t then
          (case world l (dataKey d t) of
             None \<Rightarrow> world l
           | Some js \<Rightarrow>
               (case json_Unmarshal_DataRecord js of
                  Inl err \<Rightarrow> world l
                | Inr r \<Rightarrow> (world l)(dataKey d t \<mapsto> DataRecord_json (verified r v b))))
        else world l)"
  by (simp add: VerifyData_eq CreateCompositeKey_eq dataKey_nonempty split: option.splits sum.splits)


lemma key_after:
  assumes ok: "attr_ok d" "attr_ok t" and js: "world l (dataKey d t) = Some js"
    and c: "\<not> resubmits d t c"
  shows "world (invoke l c) (dataKey d t) = Some js
         \<or> (\<exists>r0 v b. world (invoke l c) (dataKey d t) = Some (DataRecord_json (verified r0 v b)))"
proof (cases c)
  case (RegisterDeviceCall d' ow loc)
  with js show ?thesis by (auto simp: world_RegisterDevice)
next
  case (DeviceExistsCall d')
  with js show ?thesis by (simp add: world_readers)
next
  case (GetDeviceCall d')
  with js show ?thesis by (simp add: world_readers)
next
  case (GetDataRecordCall d' t')
  with js show ?thesis by (simp add: world_readers)
next
  case (SubmitDataCall d' t' x)
  with c have ne: "\<not> (d' = d \<and> t' = t)" by simp
  have "attr_ok d' \<longrightarrow> dataKey d t \<noteq> dataKey d' t'"
    using dataKey_inj[of d' d t' t] ok(1) ne by metis
  with js SubmitDataCall show ?thesis by (auto simp add: world_SubmitData)
next
  case (VerifyDataCall d' t' v b)
  show ?thesis
  proof (cases "dataKey d' t' = dataKey d t")
    case True
    with js VerifyDataCall show ?thesis
      by (simp add: world_VerifyData split: sum.splits) blast
  next
    case False
    with js VerifyDataCall show ?thesis
      by (simp add: world_VerifyData split: option.splits sum.splits)
  qed
qed

lemma terminal_step:
  assumes rec: "fst (GetDataRecord l d t) = Inr r" and fin: "terminal (DataRecord.Status r)"
    and c: "\<not> resubmits d t c"
  shows "\<exists>r'. fst (GetDataRecord (invoke l c) d t) = Inr r' \<and> terminal (DataRecord.Status r')"
proof -
  from rec obtain js where ok: "attr_ok d" "attr_ok t"
    and js: "world l (dataKey d t) = Some js" and un: "json_Unmarshal_DataRecord js = Inr r"
    by (auto simp: GetDataRecord_Inr)
  from key_after[OF ok js c] show ?thesis
  proof
    assume "world (invoke l c) (dataKey d t) = Some js"
    then have "fst (GetDataRecord (invoke l c) d t) = Inr r"
      using ok un by (simp add: fst_GetDataRecord)
    with fin show ?thesis by blast
  next
    assume "\<exists>r0 v b. world (invoke l c) (dataKey d t) = Some (DataRecord_json (verified r0 v b))"
    then obtain r0 v b where "world (invoke l c) (dataKey d t) = Some (DataRecord_json (verified r0 v b))"
      by blast
    then have "fst (GetDataRecord (invoke l c) d t) = Inr (coerced_DataRecord (verified r0 v b))"
      using ok by (simp add: fst_GetDataRecord Unmarshal_DataRecord_json)
    then show ?thesis using terminal_verified by blast
  qed
qed

text \<open>
  Claim C6, amended.  Once the record stored for \<open>(deviceID, timestamp)\<close> has a terminal
  status, it has a terminal status after every sequence of transactions that does not
  submit data for that same device and timestamp again: no other operation, and
  \<^verbatim>\<open>VerifyData\<close> in particular, makes it \<open>pending\<close>.
\<close>

theorem terminal_stays_terminal:
  assumes "fst (GetDataRecord l d t) = Inr r" "terminal (DataRecord.Status r)"
    and "list_all (\<lambda>c. \<not> resubmits d t c) cs"
  shows "\<exists>r'. fst (GetDataRecord (run l cs) d t) = Inr r' \<and> terminal (DataRecord.Status r')"
  using assms
proof (induction cs arbitrary: l r)
  case Nil
  then show ?case by (auto simp: run_def)
next
  case (Cons c cs)
  from Cons.prems(3) have c: "\<not> resubmits d t c" and cs: "list_all (\<lambda>c. \<not> resubmits d t c) cs"
    by simp_all
  from terminal_step[OF Cons.prems(1,2) c] obtain r1
    where "fst (GetDataRecord (invoke l c) d t) = Inr r1" "terminal (DataRecord.Status r1)" by blast
  from Cons.IH[OF this cs] show ?case by (simp add: run_def)
qed

text \<open>The ledger after the record of \<open>dev-1\<close> has been verified.\<close>

definition checked :: ledger where
  "checked = snd (VerifyData submitted ''dev-1'' ''t'' ''ver-1'' True)"

lemma run_submitted:
  "run genesis [RegisterDeviceCall ''dev-1'' ''alice'' ''lab-A'',
                SubmitDataCall ''dev-1'' ''t'' ''temp=21.5''] = submitted"
  by (simp add: run_def submitted_def registered_def)

lemma run_checked:
  "run genesis [RegisterDeviceCall ''dev-1'' ''alice'' ''lab-A'',
                SubmitDataCall ''dev-1'' ''t'' ''temp=21.5'',
                VerifyDataCall ''dev-1'' ''t'' ''ver-1'' True] = checked"
  by (simp add: run_def submitted_def registered_def checked_def)

lemma Unmarshal_pending:
  "json_Unmarshal_DataRecord (DataRecord_json \<lparr>DeviceID = ''dev-1'', Timestamp = ''t'',
        Data = ''temp=21.5'', Status = ''pending'', VerifierID = []\<rparr>)
      = Inr \<lparr>DeviceID = ''dev-1'', Timestamp = ''t'', Data = ''temp=21.5'', Status = ''pending'',
            VerifierID = []\<rparr>"
  by (simp add: Unmarshal_DataRecord_json coerced_DataRecord_def coerced_lits del: coerced.simps(2))

lemma world_checked:
  "world checked = (world submitted)(dataKey ''dev-1'' ''t'' \<mapsto>
      DataRecord_json \<lparr>DeviceID = ''dev-1'', Timestamp = ''t'', Data = ''temp=21.5'',
                        Status = ''verified'', VerifierID = ''ver-1''\<rparr>)"
  by (simp add: checked_def world_VerifyData attr_ok_lits world_submitted Unmarshal_pending
      verified_def)

lemma record_checked:
  "fst (GetDataRecord checked ''dev-1'' ''t'')
     = Inr \<lparr>DeviceID = ''dev-1'', Timestamp = ''t'', Data = ''temp=21.5'', Status = ''verified'',
            VerifierID = ''ver-1''\<rparr>"
  by (simp add: fst_GetDataRecord attr_ok_lits world_checked Unmarshal_DataRecord_json
      coerced_DataRecord_def coerced_lits del: coerced.simps(2))

text \<open>
  Claim C6 as stated fails: after registration, submission and verification the stored
  record is \<open>verified\<close>, and one more \<^verbatim>\<open>SubmitData\<close> for the same device and timestamp
  overwrites it with a \<open>pending\<close> record, since \<^verbatim>\<open>SubmitData\<close> does not look at what is
  stored under the key.
\<close>

theorem back_to_pending_counterexample:
  "fst (GetDataRecord
         (run genesis [RegisterDeviceCall ''dev-1'' ''alice'' ''lab-A'',
                       SubmitDataCall ''dev-1'' ''t'' ''temp=21.5'',
                       VerifyDataCall ''dev-1'' ''t'' ''ver-1'' True]) ''dev-1'' ''t'')
     = Inr \<lparr>DeviceID = ''dev-1'', Timestamp = ''t'', Data = ''temp=21.5'', Status = ''verified'',
            VerifierID = ''ver-1''\<rparr>
   \<and> fst (GetDataRecord
         (invoke (run genesis [RegisterDeviceCall ''dev-1'' ''alice'' ''lab-A'',
                       SubmitDataCall ''dev-1'' ''t'' ''temp=21.5'',
                       VerifyDataCall ''dev-1'' ''t'' ''ver-1'' True])
                 (SubmitDataCall ''dev-1'' ''t'' ''temp=21.5'')) ''dev-1'' ''t'')
     = Inr \<lparr>DeviceID = ''dev-1'', Timestamp = ''t'', Data = ''temp=21.5'', Status = ''pending'',
            VerifierID = []\<rparr>"
proof -
  have "world checked ''dev-1'' \<noteq> None"
    by (simp add: world_checked world_submitted world_registered dataKey_lits)
  then have "world (snd (SubmitData checked ''dev-1'' ''t'' ''temp=21.5'')) (dataKey ''dev-1'' ''t'')
      = Some (DataRecord_json \<lparr>DeviceID = ''dev-1'', Timestamp = ''t'', Data = ''temp=21.5'',
                               Status = ''pending'', VerifierID = []\<rparr>)"
    by (simp add: world_SubmitData attr_ok_lits)
  then have "fst (GetDataRecord (snd (SubmitData checked ''dev-1'' ''t'' ''temp=21.5'')) ''dev-1'' ''t'')
     = Inr \<lparr>DeviceID = ''dev-1'', Timestamp = ''t'', Data = ''temp=21.5'', Status = ''pending'',
            VerifierID = []\<rparr>"
    by (simp add: fst_GetDataRecord attr_ok_lits Unmarshal_pending)
  then show ?thesis by (simp add: run_checked record_checked)
qed

theorem terminal_stays_terminal_witness:
  "fst (GetDataRecord checked ''dev-1'' ''t'')
     = Inr \<lparr>DeviceID = ''dev-1'', Timestamp = ''t'', Data = ''temp=21.5'', Status = ''verified'',
            VerifierID = ''ver-1''\<rparr>
   \<and> terminal ''verified''
   \<and> list_all (\<lambda>c. \<not> resubmits ''dev-1'' ''t'' c)
        [VerifyDataCall ''dev-1'' ''t'' ''ver-1'' False, SubmitDataCall ''dev-1'' ''u'' ''temp=21.5'',
         RegisterDeviceCall ''dev-1'' ''alice'' ''lab-A'']
   \<and> (\<exists>r'. fst (GetDataRecord
                   (run checked [VerifyDataCall ''dev-1'' ''t'' ''ver-1'' False,
                                 SubmitDataCall ''dev-1'' ''u'' ''temp=21.5'',
                                 RegisterDeviceCall ''dev-1'' ''alice'' ''lab-A''])
                   ''dev-1'' ''t'') = Inr r'
          \<and> terminal (DataRecord.Status r'))"
proof -
  have a: "terminal (DataRecord.Status \<lparr>DeviceID = ''dev-1'', Timestamp = ''t'', Data = ''temp=21.5'',
      Status = ''verified'', VerifierID = ''ver-1''\<rparr>)" by (simp add: terminal_def)
  have b: "list_all (\<lambda>c. \<not> resubmits ''dev-1'' ''t'' c)
        [VerifyDataCall ''dev-1'' ''t'' ''ver-1'' False, SubmitDataCall ''dev-1'' ''u'' ''temp=21.5'',
         RegisterDeviceCall ''dev-1'' ''alice'' ''lab-A'']" by simp
  from terminal_stays_terminal[OF record_checked a b] record_checked a b show ?thesis by simp
qed

section \<open>Referential integrity\<close>

text \<open>
  \<open>referential_integrity\<close>: the device named by any record that \<^verbatim>\<open>GetDataRecord\<close> can
  read is registered.  A call has a \<open>simple_id\<close> unless it registers a device whose
  identifier starts with the byte \<^verbatim>\<open>0x00\<close>, with which every composite key starts.
  A world state is \<open>sound\<close> when every payload under a key of that form is the document of
  a record whose device is registered.
\<close>

definition referential_integrity :: "ledger \<Rightarrow> bool" where
  "referential_integrity l \<longleftrightarrow>
     (\<forall>d t r. fst (GetDataRecord l d t) = Inr r \<longrightarrow> fst (DeviceExists l (DeviceID r)) = Inr True)"

fun simple_id :: "call \<Rightarrow> bool" where
  "simple_id (RegisterDeviceCall deviceID _ _) \<longleftrightarrow> take 1 deviceID \<noteq> [CHR 0x00]"
| "simple_id _ \<longleftrightarrow> True"

definition sound :: "(string \<rightharpoonup> string) \<Rightarrow> bool" where
  "sound w \<longleftrightarrow>
     (\<forall>k v. w k = Some v \<longrightarrow> take 1 k = [CHR 0x00] \<longrightarrow>
        (\<exists>r0. v = DataRecord_json r0 \<and> w (coerced (DeviceID r0)) \<noteq> None))"

lemma sound_empty: "sound Map.empty"
  by (simp add: sound_def)

lemma sound_upd:
  assumes "sound w"
    and "take 1 k = [CHR 0x00] \<longrightarrow> (\<exists>r0. v = DataRecord_json r0 \<and> (w(k \<mapsto> v)) (coerced (DeviceID r0)) \<noteq> None)"
  shows "sound (w(k \<mapsto> v))"
  unfolding sound_def
proof (intro allI impI)
  fix k' v' assume a: "(w(k \<mapsto> v)) k' = Some v'" and b: "take 1 k' = [CHR 0x00]"
  show "\<exists>r0. v' = DataRecord_json r0 \<and> (w(k \<mapsto> v)) (coerced (DeviceID r0)) \<noteq> None"
  proof (cases "k' = k")
    case True
    with a b assms(2) show ?thesis by simp
  next
    case False
    with a have "w k' = Some v'" by simp
    with assms(1) b obtain r0 where "v' = DataRecord_json r0" "w (coerced (DeviceID r0)) \<noteq> None"
      unfolding sound_def by blast
    then show ?thesis by auto
  qed
qed

lemma take1_dataKey: "take 1 (dataKey d t) = [CHR 0x00]"
  by (simp add: dataKey_def)

lemma sound_step:
  assumes s: "sound (world l)" and c: "simple_id c"
  shows "sound (world (invoke l c))"
proof (cases c)
  case (RegisterDeviceCall d' ow loc)
  with c have "take 1 d' \<noteq> [CHR 0x00]" by simp
  then have "sound ((world l)(d' \<mapsto> Device_json \<lparr>ID = d', Owner = ow, Location = loc, Status = ''active''\<rparr>))"
    using s by (intro sound_upd) simp_all
  with s RegisterDeviceCall show ?thesis by (simp add: world_RegisterDevice)
next
  case (DeviceExistsCall d')
  with s show ?thesis by (simp add: world_readers)
next
  case (GetDeviceCall d')
  with s show ?thesis by (simp add: world_readers)
next
  case (GetDataRecordCall d' t')
  with s show ?thesis by (simp add: world_readers)
next
  case (SubmitDataCall d' t' x)
  have "sound ((world l)(dataKey d' t' \<mapsto> DataRecord_json \<lparr>DeviceID = d', Timestamp = t', Data = x,
                 Status = ''pending'', VerifierID = []\<rparr>))"
    if "world l d' \<noteq> None" "attr_ok d'"
  proof (rule sound_upd[OF s], intro impI exI conjI)
    show "DataRecord_json \<lparr>DeviceID = d', Timestamp = t', Data = x, Status = ''pending'', VerifierID = []\<rparr>
        = DataRecord_json \<lparr>DeviceID = d', Timestamp = t', Data = x, Status = ''pending'', VerifierID = []\<rparr>"
      by (rule refl)
    have "coerced d' = d'" using that(2) by (simp add: attr_ok_valid valid_coerced)
    then show "((world l)(dataKey d' t' \<mapsto> DataRecord_json \<lparr>DeviceID = d', Timestamp = t', Data = x,
                 Status = ''pending'', VerifierID = []\<rparr>))
          (coerced (DeviceID \<lparr>DeviceID = d', Timestamp = t', Data = x, Status = ''pending'', VerifierID = []\<rparr>))
        \<noteq> None"
      using that(1) by simp
  qed
  with s SubmitDataCall show ?thesis by (simp add: world_SubmitData)
next
  case (VerifyDataCall d' t' v b)
  have "sound ((world l)(dataKey d' t' \<mapsto> DataRecord_json (verified r v b)))"
    if js: "world l (dataKey d' t') = Some js" and un: "json_Unmarshal_DataRecord js = Inr r" for js r
  proof -
    from s js obtain r0 where r0: "js = DataRecord_json r0" "world l (coerced (DeviceID r0)) \<noteq> None"
      unfolding sound_def using take1_dataKey by blast
    with un have r: "r = coerced_DataRecord r0" by (simp add: Unmarshal_DataRecord_json)
    have "coerced (DeviceID (verified r v b)) = coerced (DeviceID r0)"
      by (simp add: r verified_def coerced_DataRecord_def coerced_idem del: coerced.simps(2))
    with r0(2) have "((world l)(dataKey d' t' \<mapsto> DataRecord_json (verified r v b)))
        (coerced (DeviceID (verified r v b))) \<noteq> None" by simp
    then show ?thesis using s by (intro sound_upd) blast+
  qed
  with s VerifyDataCall show ?thesis
    by (simp add: world_VerifyData split: option.splits sum.splits)
qed

lemma sound_run: "sound (world l) \<Longrightarrow> list_all simple_id cs \<Longrightarrow> sound (world (run l cs))"
proof (induction cs arbitrary: l)
  case Nil
  then show ?case by (simp add: run_def)
next
  case (Cons c cs)
  from Cons.prems have "sound (world (invoke l c))" by (simp add: sound_step)
  with Cons.prems have "sound (world (run (invoke l c) cs))" by (intro Cons.IH) simp_all
  then show ?case by (simp add: run_def)
qed

lemma sound_integrity:
  assumes "sound (world l)"
  shows "referential_integrity l"
  unfolding referential_integrity_def
proof (intro allI impI)
  fix d t r assume "fst (GetDataRecord l d t) = Inr r"
  then obtain js where js: "world l (dataKey d t) = Some js" "json_Unmarshal_DataRecord js = Inr r"
    by (auto simp: GetDataRecord_Inr)
  from assms js(1) obtain r0 where r0: "js = DataRecord_json r0" "world l (coerced (DeviceID r0)) \<noteq> None"
    unfolding sound_def using take1_dataKey by blast
  with js(2) have "r = coerced_DataRecord r0" by (simp add: Unmarshal_DataRecord_json)
  then have "DeviceID r = coerced (DeviceID r0)" by (simp add: coerced_DataRecord_def)
  with r0(2) show "fst (DeviceExists l (DeviceID r)) = Inr True" by (simp add: DeviceExists_eq)
qed

text \<open>
  Claim C7, amended.  In every ledger reachable from the empty one by transactions in
  which no device is registered under an identifier that starts with the byte
  \<^verbatim>\<open>0x00\<close>, the device of every stored data record is registered.
\<close>

theorem records_have_devices:
  assumes "list_all simple_id cs"
  shows "referential_integrity (run genesis cs)"
proof -
  have "sound (world genesis)" by (simp add: genesis_def sound_empty)
  then have "sound (world (run genesis cs))" using assms by (rule sound_run)
  then show ?thesis by (rule sound_integrity)
qed

theorem records_have_devices_witness:
  "list_all simple_id [RegisterDeviceCall ''dev-1'' ''alice'' ''lab-A'',
                       SubmitDataCall ''dev-1'' ''t'' ''temp=21.5'']
   \<and> referential_integrity (run genesis [RegisterDeviceCall ''dev-1'' ''alice'' ''lab-A'',
                                          SubmitDataCall ''dev-1'' ''t'' ''temp=21.5''])
   \<and> fst (GetDataRecord (run genesis [RegisterDeviceCall ''dev-1'' ''alice'' ''lab-A'',
                                          SubmitDataCall ''dev-1'' ''t'' ''temp=21.5'']) ''dev-1'' ''t'')
     = Inr \<lparr>DeviceID = ''dev-1'', Timestamp = ''t'', Data = ''temp=21.5'', Status = ''pending'',
            VerifierID = []\<rparr>"
proof -
  have a: "list_all simple_id [RegisterDeviceCall ''dev-1'' ''alice'' ''lab-A'',
                       SubmitDataCall ''dev-1'' ''t'' ''temp=21.5'']" by simp
  from records_have_devices[OF a] a show ?thesis
    by (simp add: run_submitted record_submitted)
qed

text \<open>
  Claim C7 as stated fails.  \<^verbatim>\<open>RegisterDevice\<close> uses the identifier as the key, so a
  device registered under the composite key of \<open>(d, t)\<close> is stored where the record of
  \<open>(d, t)\<close> is looked up; \<^verbatim>\<open>GetDataRecord\<close> reads its document as a record, whose
  \<open>deviceID\<close> is empty, and neither the empty identifier nor \<open>d\<close> is registered.
\<close>

theorem records_have_devices_counterexample:
  "dataKey ''d'' ''t'' = CHR 0x00 # ''DataRecord'' @ CHR 0x00 # ''d'' @ CHR 0x00 # ''t'' @ [CHR 0x00]
   \<and> CreateCompositeKey ''DataRecord'' [''d'', ''t''] = Inr (dataKey ''d'' ''t'')
   \<and> fst (RegisterDevice genesis (dataKey ''d'' ''t'') ''o'' ''l'') = Inr ()
   \<and> fst (GetDataRecord (run genesis [RegisterDeviceCall (dataKey ''d'' ''t'') ''o'' ''l'']) ''d'' ''t'')
       = Inr \<lparr>DeviceID = [], Timestamp = [], Data = [], Status = ''active'', VerifierID = []\<rparr>
   \<and> fst (DeviceExists (run genesis [RegisterDeviceCall (dataKey ''d'' ''t'') ''o'' ''l'']) [])
       = Inr False
   \<and> fst (DeviceExists (run genesis [RegisterDeviceCall (dataKey ''d'' ''t'') ''o'' ''l'']) ''d'')
       = Inr False"
proof -
  have w: "world (run genesis [RegisterDeviceCall (dataKey ''d'' ''t'') ''o'' ''l''])
      = [dataKey ''d'' ''t'' \<mapsto> Device_json \<lparr>ID = dataKey ''d'' ''t'', Owner = ''o'', Location = ''l'',
            Status = ''active''\<rparr>]"
    by (simp add: run_def world_RegisterDevice genesis_def dataKey_nonempty)
  have ne: "[] \<noteq> dataKey ''d'' ''t''" "''d'' \<noteq> dataKey ''d'' ''t''"
    by (simp_all add: dataKey_def)
  have reg: "fst (RegisterDevice genesis (dataKey ''d'' ''t'') ''o'' ''l'') = Inr ()"
    by (simp add: RegisterDevice_eq genesis_def dataKey_nonempty)
  have key: "dataKey ''d'' ''t''
      = CHR 0x00 # ''DataRecord'' @ CHR 0x00 # ''d'' @ CHR 0x00 # ''t'' @ [CHR 0x00]"
    by (simp add: dataKey_def)
  have rest: "CreateCompositeKey ''DataRecord'' [''d'', ''t''] = Inr (dataKey ''d'' ''t'')
   \<and> fst (GetDataRecord (run genesis [RegisterDeviceCall (dataKey ''d'' ''t'') ''o'' ''l'']) ''d'' ''t'')
       = Inr \<lparr>DeviceID = [], Timestamp = [], Data = [], Status = ''active'', VerifierID = []\<rparr>
   \<and> fst (DeviceExists (run genesis [RegisterDeviceCall (dataKey ''d'' ''t'') ''o'' ''l'']) [])
       = Inr False
   \<and> fst (DeviceExists (run genesis [RegisterDeviceCall (dataKey ''d'' ''t'') ''o'' ''l'']) ''d'')
       = Inr False"
    by (simp add: w ne CreateCompositeKey_eq attr_ok_lits
        fst_GetDataRecord Unmarshal_DataRecord_Device_json coerced_lits DeviceExists_eq
        del: coerced.simps(2))
  from key reg rest show ?thesis by blast
qed

section \<open>Registration happens once\<close>

lemma key_kept:
  assumes "world l k \<noteq> None" and "take 1 k \<noteq> [CHR 0x00]"
  shows "world (invoke l c) k = world l k"
proof (cases c)
  case (RegisterDeviceCall d' ow loc)
  with assms(1) show ?thesis by (auto simp: world_RegisterDevice)
next
  case (DeviceExistsCall d')
  then show ?thesis by (simp add: world_readers)
next
  case (GetDeviceCall d')
  then show ?thesis by (simp add: world_readers)
next
  case (GetDataRecordCall d' t')
  then show ?thesis by (simp add: world_readers)
next
  case (SubmitDataCall d' t' x)
  have "k \<noteq> dataKey d' t'" using assms(2) take1_dataKey by blast
  with SubmitDataCall show ?thesis by (simp add: world_SubmitData)
next
  case (VerifyDataCall d' t' v b)
  have "k \<noteq> dataKey d' t'" using assms(2) take1_dataKey by blast
  with VerifyDataCall show ?thesis
    by (simp add: world_VerifyData split: option.splits sum.splits)
qed

lemma key_kept_run:
  assumes "world l k \<noteq> None" and "take 1 k \<noteq> [CHR 0x00]"
  shows "world (run l cs) k = world l k"
  using assms(1)
proof (induction cs arbitrary: l)
  case Nil
  show ?case by (simp add: run_def)
next
  case (Cons c cs)
  from Cons.prems assms(2) have eq: "world (invoke l c) k = world l k" by (rule key_kept)
  with Cons.prems have "world (invoke l c) k \<noteq> None" by simp
  then have "world (run (invoke l c) cs) k = world (invoke l c) k" by (rule Cons.IH)
  with eq show ?case by (simp add: run_def)
qed

text \<open>
  Claim C2 as stated fails for a device identifier that is a composite key.  The device
  is registered under the composite key of \<open>(d, t)\<close>; \<^verbatim>\<open>VerifyData\<close> for \<open>(d, t)\<close>
  then reads the device document as a data record and writes a record document back
  under that key.  A later \<^verbatim>\<open>RegisterDevice\<close> for the same identifier is refused, as
  claimed, but what is stored under the identifier is no longer what the first call
  wrote.
\<close>

theorem register_twice_counterexample:
  "fst (RegisterDevice genesis (dataKey ''d'' ''t'') ''o'' ''l'') = Inr ()
   \<and> world (snd (RegisterDevice genesis (dataKey ''d'' ''t'') ''o'' ''l'')) (dataKey ''d'' ''t'')
       = Some (Device_json \<lparr>ID = dataKey ''d'' ''t'', Owner = ''o'', Location = ''l'',
                            Status = ''active''\<rparr>)
   \<and> fst (VerifyData (snd (RegisterDevice genesis (dataKey ''d'' ''t'') ''o'' ''l''))
            ''d'' ''t'' ''ver-1'' True) = Inr ()
   \<and> fst (RegisterDevice
            (run (snd (RegisterDevice genesis (dataKey ''d'' ''t'') ''o'' ''l''))
                 [VerifyDataCall ''d'' ''t'' ''ver-1'' True])
            (dataKey ''d'' ''t'') ''o'' ''l'')
       = Inl (AlreadyRegistered (dataKey ''d'' ''t''))
   \<and> world (snd (RegisterDevice
            (run (snd (RegisterDevice genesis (dataKey ''d'' ''t'') ''o'' ''l''))
                 [VerifyDataCall ''d'' ''t'' ''ver-1'' True])
            (dataKey ''d'' ''t'') ''o'' ''l'')) (dataKey ''d'' ''t'')
       = Some (DataRecord_json \<lparr>DeviceID = [], Timestamp = [], Data = [], Status = ''verified'',
                                VerifierID = ''ver-1''\<rparr>)
   \<and> DataRecord_json \<lparr>DeviceID = [], Timestamp = [], Data = [], Status = ''verified'',
                        VerifierID = ''ver-1''\<rparr>
       \<noteq> Device_json \<lparr>ID = dataKey ''d'' ''t'', Owner = ''o'', Location = ''l'',
                        Status = ''active''\<rparr>"
proof -
  let ?K = "dataKey ''d'' ''t''"
  let ?dev = "Device_json \<lparr>ID = ?K, Owner = ''o'', Location = ''l'', Status = ''active''\<rparr>"
  let ?rec = "DataRecord_json \<lparr>DeviceID = [], Timestamp = [], Data = [], Status = ''verified'',
                                VerifierID = ''ver-1''\<rparr>"
  let ?l1 = "snd (RegisterDevice genesis ?K ''o'' ''l'')"
  have reg: "fst (RegisterDevice genesis ?K ''o'' ''l'') = Inr ()"
    by (simp add: RegisterDevice_eq genesis_def dataKey_nonempty)
  have w1: "world ?l1 = [?K \<mapsto> ?dev]"
    by (simp add: world_RegisterDevice genesis_def dataKey_nonempty)
  have un: "json_Unmarshal_DataRecord ?dev
      = Inr \<lparr>DeviceID = [], Timestamp = [], Data = [], Status = ''active'', VerifierID = []\<rparr>"
    by (simp add: Unmarshal_DataRecord_Device_json coerced_lits del: coerced.simps(2))
  have js: "world ?l1 ?K = Some ?dev" by (simp add: w1)
  note v = VerifyData_ok[OF attr_ok_lits(3) attr_ok_lits(2) js un, of "''ver-1''" True]
  have ver: "fst (VerifyData ?l1 ''d'' ''t'' ''ver-1'' True) = Inr ()" by (simp add: v)
  have w2: "world (run ?l1 [VerifyDataCall ''d'' ''t'' ''ver-1'' True]) ?K = Some ?rec"
    by (simp add: run_def v verified_def)
  have again: "fst (RegisterDevice (run ?l1 [VerifyDataCall ''d'' ''t'' ''ver-1'' True]) ?K ''o'' ''l'')
      = Inl (AlreadyRegistered ?K)"
    using w2 by (simp add: RegisterDevice_eq)
  have kept: "world (snd (RegisterDevice (run ?l1 [VerifyDataCall ''d'' ''t'' ''ver-1'' True]) ?K ''o'' ''l'')) ?K
      = Some ?rec"
    using w2 by (simp add: world_RegisterDevice)
  have ne: "?rec \<noteq> ?dev"
    by (simp add: DataRecord_json_def Device_json_def)
  from reg js ver again kept ne show ?thesis by blast
qed

text \<open>
  Claim C2, amended.  After a successful \<^verbatim>\<open>RegisterDevice\<close> the ledger holds under the key
  \<open>deviceID\<close> the document of the device just registered.  Every later
  \<^verbatim>\<open>RegisterDevice\<close> for the same \<open>deviceID\<close>, with any owner and location, directly
  afterwards or after any further transactions, fails with \<open>AlreadyRegistered\<close> (the
  specification's \<open>AlreadyExists\<close>) and leaves the world state untouched.  After a
  second call made directly the stored value is the one the first call wrote; after a
  second call made behind any further transactions it is so whenever \<open>deviceID\<close> does
  not start with the byte \<^verbatim>\<open>0x00\<close>, with which every composite key starts.
\<close>

theorem register_twice:
  assumes "RegisterDevice l deviceID owner location = (Inr (), l1)"
  shows "world l1 deviceID
           = Some (Device_json \<lparr>ID = deviceID, Owner = owner, Location = location,
                                Status = ''active''\<rparr>)
    \<and> (\<forall>cs owner' location'.
          fst (RegisterDevice (run l1 cs) deviceID owner' location')
            = Inl (AlreadyRegistered deviceID)
          \<and> kind_of (AlreadyRegistered deviceID) = AlreadyExists
          \<and> world (snd (RegisterDevice (run l1 cs) deviceID owner' location'))
              = world (run l1 cs))
    \<and> (\<forall>owner' location'.
          world (snd (RegisterDevice l1 deviceID owner' location')) deviceID
            = Some (Device_json \<lparr>ID = deviceID, Owner = owner, Location = location,
                                 Status = ''active''\<rparr>))
    \<and> (take 1 deviceID \<noteq> [CHR 0x00] \<longrightarrow>
        (\<forall>cs owner' location'.
          world (snd (RegisterDevice (run l1 cs) deviceID owner' location')) deviceID
            = Some (Device_json \<lparr>ID = deviceID, Owner = owner, Location = location,
                                 Status = ''active''\<rparr>)))"
proof -
  from assms have w: "world l1 deviceID
      = Some (Device_json \<lparr>ID = deviceID, Owner = owner, Location = location,
                           Status = ''active''\<rparr>)"
    by (auto simp: RegisterDevice_eq split: if_splits)
  then have present: "\<And>cs. world (run l1 cs) deviceID \<noteq> None"
    by (intro world_run_mono) simp
  have same: "\<And>cs owner' location'.
      world (snd (RegisterDevice (run l1 cs) deviceID owner' location')) = world (run l1 cs)"
    using present by (simp add: RegisterDevice_eq)
  have kept: "world (run l1 cs) deviceID = world l1 deviceID"
    if "take 1 deviceID \<noteq> [CHR 0x00]" for cs
    using w that by (intro key_kept_run) simp_all
  have direct: "\<And>owner' location'. world (snd (RegisterDevice l1 deviceID owner' location')) deviceID
      = Some (Device_json \<lparr>ID = deviceID, Owner = owner, Location = location, Status = ''active''\<rparr>)"
    using same[of "[]"] w by (simp add: run_def)
  have fails: "\<And>cs owner' location'. fst (RegisterDevice (run l1 cs) deviceID owner' location')
      = Inl (AlreadyRegistered deviceID)"
    using present by (simp add: RegisterDevice_eq)
  show ?thesis using w fails same direct kept by simp
qed

theorem register_twice_witness:
  "fst (RegisterDevice genesis ''dev-1'' ''alice'' ''lab-A'') = Inr ()
   \<and> take 1 ''dev-1'' \<noteq> [CHR 0x00]
   \<and> fst (RegisterDevice
            (run (snd (RegisterDevice genesis ''dev-1'' ''alice'' ''lab-A''))
                 [SubmitDataCall ''dev-1'' ''t'' ''temp=21.5'',
                  VerifyDataCall ''dev-1'' ''t'' ''ver-1'' True])
            ''dev-1'' ''bob'' ''lab-B'') = Inl (AlreadyRegistered ''dev-1'')
   \<and> world (snd (RegisterDevice
            (run (snd (RegisterDevice genesis ''dev-1'' ''alice'' ''lab-A''))
                 [SubmitDataCall ''dev-1'' ''t'' ''temp=21.5'',
                  VerifyDataCall ''dev-1'' ''t'' ''ver-1'' True])
            ''dev-1'' ''bob'' ''lab-B'')) ''dev-1''
       = Some (Device_json \<lparr>ID = ''dev-1'', Owner = ''alice'', Location = ''lab-A'',
                            Status = ''active''\<rparr>)"
proof -
  have a: "fst (RegisterDevice genesis ''dev-1'' ''alice'' ''lab-A'') = Inr ()"
    by (simp add: RegisterDevice_eq genesis_def)
  then have h: "RegisterDevice genesis ''dev-1'' ''alice'' ''lab-A''
             = (Inr (), snd (RegisterDevice genesis ''dev-1'' ''alice'' ''lab-A''))"
    by (metis prod.collapse)
  have b: "take 1 ''dev-1'' \<noteq> [CHR 0x00]" by simp
  from register_twice [OF h] a b show ?thesis by blast
qed

end
